theory Spec2Isabelle
  imports Complex_Main "HOL-Library.Multiset" "HOL-Library.Product_Lexorder"
begin

section \<open>Elementary JavaScript values\<close>

text \<open>
  The bet variant, the field \<open>type: 'jodi' | 'single'\<close> of the documents.
\<close>

datatype variant = Jodi | Single

text \<open>
  \<open>String(n)\<close> and \<open>n.toString()\<close> for a non-negative integer \<open>n\<close>: the decimal digits,
  most significant first, without leading zeros.
\<close>

definition digitChar :: "nat \<Rightarrow> char" where
  "digitChar d = char_of (48 + d)"

fun toString :: "nat \<Rightarrow> string" where
  "toString n = (if n < 10 then [digitChar n] else toString (n div 10) @ [digitChar (n mod 10)])"

declare toString.simps [simp del]

text \<open>\<open>s.padStart(n, c)\<close> for a one-character filler.\<close>

definition padStart :: "nat \<Rightarrow> char \<Rightarrow> string \<Rightarrow> string" where
  "padStart n c s = replicate (n - length s) c @ s"

text \<open>
  The character class \<open>[0-9]\<close> and the value of a string of decimal digits, which is what
  \<open>Number\<close> returns on such a string. \<open>parseInt\<close> (called without a radix) reads the
  longest prefix of decimal digits; with no digit to read it returns \<open>NaN\<close>, here
  \<open>None\<close>. Signs, leading white space and the \<open>0x\<close> prefix do not occur in the
  strings the program passes to it.
\<close>

definition isDigit :: "char \<Rightarrow> bool" where
  "isDigit c = (c \<in> set ''0123456789'')"

definition digitValue :: "char \<Rightarrow> nat" where
  "digitValue c = of_char c - 48"

definition decimalValue :: "string \<Rightarrow> nat" where
  "decimalValue s = foldl (\<lambda>v c. 10 * v + digitValue c) 0 s"

definition parseInt :: "string \<Rightarrow> nat option" where
  "parseInt s = (case takeWhile isDigit s of [] \<Rightarrow> None | ds \<Rightarrow> Some (decimalValue ds))"

text \<open>
  A \<open>Set<string>\<close> keeps its members in insertion order; \<open>add\<close> ignores a member that is
  already there, and \<open>size\<close> is the length of the list.
\<close>

definition setAdd :: "'a list \<Rightarrow> 'a \<Rightarrow> 'a list" where
  "setAdd xs x = (if x \<in> set xs then xs else xs @ [x])"

text \<open>
  A \<open>Map\<close> keeps its keys in insertion order; \<open>set\<close> on a key that is present replaces
  the value where it stands, \<open>get\<close> is \<^const>\<open>map_of\<close>.
\<close>

fun mapSet :: "'k \<Rightarrow> 'v \<Rightarrow> ('k \<times> 'v) list \<Rightarrow> ('k \<times> 'v) list" where
  "mapSet k v [] = [(k, v)]"
| "mapSet k v ((k', v') # m) = (if k = k' then (k, v) # m else (k', v') # mapSet k v m)"

definition mapHas :: "'k \<Rightarrow> ('k \<times> 'v) list \<Rightarrow> bool" where
  "mapHas k m = (map_of m k \<noteq> None)"

text \<open>
  \<open>Array.prototype.sort\<close> with a comparator is stable: an element goes before the first
  one it does not compare greater than, and elements that compare equal keep their order.
\<close>

fun insertBy :: "('a \<Rightarrow> 'a \<Rightarrow> 'b::linordered_idom) \<Rightarrow> 'a \<Rightarrow> 'a list \<Rightarrow> 'a list" where
  "insertBy cmp x [] = [x]"
| "insertBy cmp x (y # ys) = (if cmp x y \<le> 0 then x # y # ys else y # insertBy cmp x ys)"

definition jsSort :: "('a \<Rightarrow> 'a \<Rightarrow> 'b::linordered_idom) \<Rightarrow> 'a list \<Rightarrow> 'a list" where
  "jsSort cmp xs = foldr (insertBy cmp) xs []"

section \<open>Numbers\<close>

text \<open>
  A number of the language is a double. A finite double is the rational it denotes, and
  the sum of two doubles is the double nearest to their exact sum, the one with the even
  significand when two are equally near. \<open>roundDouble\<close> is this rounding of a rational:
  53 bits of significand, and the least exponent \<open>-1022\<close>, below which the doubles keep
  the spacing \<open>2^-1074\<close>. A sum beyond the largest double, for which the language has
  \<open>Infinity\<close>, is outside the model.
\<close>

function bitLength :: "int \<Rightarrow> nat" where
  "bitLength n = (if n \<le> 0 then 0 else Suc (bitLength (n div 2)))"
  by pat_completeness auto
termination
  by (relation "measure nat") auto

declare bitLength.simps [simp del]

definition pow2 :: "int \<Rightarrow> rat" where
  "pow2 k = (if k \<ge> 0 then 2 ^ nat k else 1 / 2 ^ nat (- k))"

text \<open>
  The exponent of a positive rational \<open>x\<close>, the \<open>e\<close> with \<open>2^e \<le> x < 2^(e+1)\<close>, from
  the numbers of binary digits of its numerator and denominator.
\<close>

definition floorLog2 :: "rat \<Rightarrow> int" where
  "floorLog2 x =
     (case quotient_of x of (p, q) \<Rightarrow>
        let k = int (bitLength p) - int (bitLength q)
        in if pow2 k \<le> x then k else k - 1)"

text \<open>The nearest integer, the even one of two that are equally near.\<close>

definition roundHalfEven :: "rat \<Rightarrow> int" where
  "roundHalfEven x =
     (let n = \<lfloor>x\<rfloor>; r = x - of_int n
      in if r < 1 / 2 then n else if r > 1 / 2 then n + 1 else if even n then n else n + 1)"

definition roundDouble :: "rat \<Rightarrow> rat" where
  "roundDouble x =
     (if x = 0 then 0
      else let e = max (floorLog2 \<bar>x\<bar>) (- 1022);
               ulp = pow2 (e - 52)
           in of_int (roundHalfEven (x / ulp)) * ulp)"

text \<open>\<open>x + y\<close> on numbers.\<close>

definition plusNumber :: "rat \<Rightarrow> rat \<Rightarrow> rat" where
  "plusNumber x y = roundDouble (x + y)"

section \<open>Number-space generator\<close>

text \<open>
  \<open>generateAllNumbers\<close>: \<open>Array.from({ length: k }, (_, i) => ...)\<close> runs the callback on
  the indices \<open>0, ..., k - 1\<close> in order.
\<close>

definition generateAllNumbers :: "variant \<Rightarrow> string list" where
  "generateAllNumbers type' =
     (if type' = Single then map (\<lambda>i. toString (i + 1)) [0..<9]
      else map (\<lambda>i. let num = i + 1 in if num < 10 then CHR ''0'' # toString num else toString num)
             [0..<99])"

section \<open>Dates\<close>

text \<open>
  A \<open>Date\<close> is its time value, the milliseconds since the epoch. Local time is UTC plus
  a fixed zone offset \<open>tz\<close>, in minutes (330 for India); a zone whose offset changes
  during the year is outside this model. The functions below are the abstract operations
  of the language definition and the \<open>Date\<close> methods the program calls; a setter
  returns the new time value.
\<close>

type_synonym Date = int

definition LocalTime :: "int \<Rightarrow> Date \<Rightarrow> int" where
  "LocalTime tz t = t + tz * 60000"

definition UTC :: "int \<Rightarrow> int \<Rightarrow> Date" where
  "UTC tz t = t - tz * 60000"

definition Day :: "int \<Rightarrow> int" where
  "Day t = t div 86400000"

definition HourFromTime :: "int \<Rightarrow> int" where
  "HourFromTime t = (t div 3600000) mod 24"

definition MinFromTime :: "int \<Rightarrow> int" where
  "MinFromTime t = (t div 60000) mod 60"

definition SecFromTime :: "int \<Rightarrow> int" where
  "SecFromTime t = (t div 1000) mod 60"

definition msFromTime :: "int \<Rightarrow> int" where
  "msFromTime t = t mod 1000"

definition MakeTime :: "int \<Rightarrow> int \<Rightarrow> int \<Rightarrow> int \<Rightarrow> int" where
  "MakeTime h m s ms = h * 3600000 + m * 60000 + s * 1000 + ms"

definition MakeDate :: "int \<Rightarrow> int \<Rightarrow> int" where
  "MakeDate day time = day * 86400000 + time"

definition getMinutes :: "int \<Rightarrow> Date \<Rightarrow> int" where
  "getMinutes tz t = MinFromTime (LocalTime tz t)"

definition getSeconds :: "int \<Rightarrow> Date \<Rightarrow> int" where
  "getSeconds tz t = SecFromTime (LocalTime tz t)"

definition setHours :: "int \<Rightarrow> int \<Rightarrow> int \<Rightarrow> int \<Rightarrow> int \<Rightarrow> Date \<Rightarrow> Date" where
  "setHours tz h m s ms t = UTC tz (MakeDate (Day (LocalTime tz t)) (MakeTime h m s ms))"

definition setMinutes :: "int \<Rightarrow> int \<Rightarrow> Date \<Rightarrow> Date" where
  "setMinutes tz m t =
     (let l = LocalTime tz t
      in UTC tz (MakeDate (Day l) (MakeTime (HourFromTime l) m (SecFromTime l) (msFromTime l))))"

definition setMinutes3 :: "int \<Rightarrow> int \<Rightarrow> int \<Rightarrow> int \<Rightarrow> Date \<Rightarrow> Date" where
  "setMinutes3 tz m s ms t =
     (let l = LocalTime tz t in UTC tz (MakeDate (Day l) (MakeTime (HourFromTime l) m s ms)))"

definition setSeconds :: "int \<Rightarrow> int \<Rightarrow> Date \<Rightarrow> Date" where
  "setSeconds tz s t =
     (let l = LocalTime tz t
      in UTC tz (MakeDate (Day l) (MakeTime (HourFromTime l) (MinFromTime l) s (msFromTime l))))"

definition setMilliseconds :: "int \<Rightarrow> int \<Rightarrow> Date \<Rightarrow> Date" where
  "setMilliseconds tz ms t =
     (let l = LocalTime tz t
      in UTC tz (MakeDate (Day l) (MakeTime (HourFromTime l) (MinFromTime l) (SecFromTime l) ms)))"

section \<open>Slot calculus\<close>

text \<open>
  One element of the array \<open>getTimeSlotBoundaries\<close> builds. The label \<open>formatted\<close> comes
  from \<open>toLocaleTimeString\<close>, whose text depends on the locale of the browser; it is left
  out.
\<close>

record SlotBoundary =
  start :: Date
  end' :: Date

text \<open>
  \<open>getTimeSlotBoundaries(dateStr)\<close>. The argument \<open>parsed\<close> is the time value of
  \<open>new Date(dateStr)\<close>.
\<close>

definition getTimeSlotBoundaries :: "int \<Rightarrow> Date \<Rightarrow> SlotBoundary list" where
  "getTimeSlotBoundaries tz parsed =
     (let baseDate = setHours tz 0 0 0 0 parsed;
          slots = concat (map (\<lambda>hour. map (\<lambda>minute.
                    let start = setHours tz hour minute 0 0 baseDate;
                        end = setMinutes tz (minute + 15) start
                    in \<lparr>start = start, end' = end\<rparr>) [0, 15, 30, 45]) [0..23])
      in jsSort (\<lambda>a b. start b - start a) slots)"

text \<open>
  \<open>getTimeSlotKey\<close> of the results viewer. \<open>Math.ceil((minutes + 1) / 15)\<close> is computed
  on integers: the quotient is exact when \<open>minutes + 1\<close> is a multiple of 15 and lies
  strictly between two integers otherwise. The ISO string returned denotes the time value
  computed, and \<open>new Date\<close> reads it back: the key is that time value.
\<close>

definition getTimeSlotKey :: "int \<Rightarrow> Date \<Rightarrow> Date" where
  "getTimeSlotKey tz date =
     (let slotEnd = date;
          minutes = getMinutes tz slotEnd;
          roundedMinutes = ((minutes + 1 + 14) div 15) * 15;
          slotEnd = setMinutes tz roundedMinutes slotEnd;
          slotEnd = setSeconds tz 0 slotEnd;
          slotEnd = setMilliseconds tz 0 slotEnd
      in slotEnd)"

section \<open>The store\<close>

text \<open>
  A document of the collection \<open>bets\<close>: its identifier \<open>doc.id\<close> and the fields of
  \<open>doc.data()\<close>. An optional field is an \<open>option\<close>; \<open>processedAt\<close> is the field
  promotion adds. An amount is a finite number, given as the rational it denotes; the
  values \<open>Infinity\<close> and \<open>NaN\<close> are outside the model. The aggregator and the display
  add amounts as the language does, with \<^const>\<open>plusNumber\<close>. The grouping of the
  results viewer is modelled with exact sums, which are the program's sums when the
  amounts are whole and below \<open>2^53\<close>.

  The collection is the list of its documents. The order in which the store returns the
  documents of a query that asks for none is the store's affair: the model takes the
  order of the list, and sorts by the field of an \<open>orderBy\<close>.
\<close>

record EntryData =
  docId :: string
  number :: string
  amount :: rat
  userId :: "string option"
  createdAt :: Date
  date :: string
  type :: variant
  pending :: "bool option"
  processedAt :: "Date option"

text \<open>
  The data of a new document, and \<open>addDoc\<close>, which stores it under the identifier the
  store generates.
\<close>

definition addDoc :: "string \<Rightarrow> EntryData \<Rightarrow> EntryData list \<Rightarrow> EntryData list" where
  "addDoc newId data docs = docs @ [data\<lparr>docId := newId\<rparr>]"

text \<open>\<open>a || b\<close> on an optional string: an absent or empty first operand gives the second.\<close>

definition orElse :: "string option \<Rightarrow> string \<Rightarrow> string" where
  "orElse a b = (case a of None \<Rightarrow> b | Some s \<Rightarrow> if s = [] then b else s)"

section \<open>Aggregator\<close>

record SummaryItem =
  number :: string
  total :: rat
  userCount :: nat
  minAmount :: rat

text \<open>
  The values of \<open>numberMap\<close>. \<open>minAmount\<close> starts at \<open>Infinity\<close>, here \<open>None\<close>.
\<close>

record NumberInfo =
  total :: rat
  users :: "string list"
  minAmount :: "rat option"

definition mathMin :: "rat option \<Rightarrow> rat \<Rightarrow> rat option" where
  "mathMin m a = (case m of None \<Rightarrow> Some a | Some b \<Rightarrow> Some (min b a))"

definition emptyInfo :: NumberInfo where
  "emptyInfo = \<lparr>NumberInfo.total = 0, users = [], NumberInfo.minAmount = None\<rparr>"

text \<open>\<open>Initialize with all possible numbers\<close>\<close>

definition seedNumbers :: "variant \<Rightarrow> (string \<times> NumberInfo) list" where
  "seedNumbers fetchType = foldl (\<lambda>numberMap num. mapSet num emptyInfo numberMap) [] (generateAllNumbers fetchType)"

text \<open>
  The body of \<open>snapshot.forEach\<close> in \<open>fetchSummary\<close>, and of \<open>slotEntries.forEach\<close> in
  \<open>fetchTimeSlotData\<close>, which is the same text: \<open>updateInfo\<close> is what it does to the
  object \<open>numberMap.get(key)\<close>, which stays where it is in the map. After the \<open>set\<close> of a
  missing key the \<open>get\<close> finds it, so its \<open>None\<close> branch is never taken.
\<close>

definition updateInfo :: "NumberInfo \<Rightarrow> EntryData \<Rightarrow> NumberInfo" where
  "updateInfo entry data =
     (let userId = orElse (userId data) (docId data);
          entry = entry\<lparr>NumberInfo.total := plusNumber (NumberInfo.total entry) (EntryData.amount data)\<rparr>;
          entry = entry\<lparr>users := setAdd (users entry) userId\<rparr>;
          entry = (if EntryData.amount data > 0
                   then entry\<lparr>NumberInfo.minAmount :=
                          mathMin (NumberInfo.minAmount entry) (EntryData.amount data)\<rparr>
                   else entry)
      in entry)"

definition addEntry :: "(string \<times> NumberInfo) list \<Rightarrow> EntryData \<Rightarrow> (string \<times> NumberInfo) list" where
  "addEntry numberMap data =
     (let key = EntryData.number data;
          numberMap = (if \<not> mapHas key numberMap then mapSet key emptyInfo numberMap else numberMap)
      in case map_of numberMap key of
           None \<Rightarrow> numberMap
         | Some entry \<Rightarrow> mapSet key (updateInfo entry data) numberMap)"

definition toSummaryItem :: "string \<times> NumberInfo \<Rightarrow> SummaryItem" where
  "toSummaryItem p =
     (case p of (num, info) \<Rightarrow>
        \<lparr>SummaryItem.number = num,
         SummaryItem.total = NumberInfo.total info,
         userCount = length (users info),
         SummaryItem.minAmount = (case NumberInfo.minAmount info of Some m \<Rightarrow> m | None \<Rightarrow> 0)\<rparr>)"

definition aggregate :: "variant \<Rightarrow> EntryData list \<Rightarrow> SummaryItem list" where
  "aggregate fetchType snapshot = map toSummaryItem (foldl addEntry (seedNumbers fetchType) snapshot)"

text \<open>\<open>fetchSummary\<close>: the value it passes to \<open>setTodaySummary\<close>.\<close>

definition fetchSummary :: "EntryData list \<Rightarrow> string \<Rightarrow> variant \<Rightarrow> SummaryItem list" where
  "fetchSummary docs fetchDate fetchType =
     aggregate fetchType
       (filter (\<lambda>d. date d = fetchDate \<and> type d = fetchType \<and> pending d = Some False) docs)"

text \<open>
  The admin panel's \<open>TimeSlot\<close>, without its locale-dependent label and the flag
  \<open>isCurrent\<close>, which only the display reads.
\<close>

record TimeSlot =
  startTime :: Date
  endTime :: Date
  entries :: "SummaryItem list"

text \<open>
  \<open>fetchTimeSlotData\<close>: the value it passes to \<open>setTimeSlots\<close>. \<open>parsed\<close> is
  \<open>new Date(fetchDate)\<close>, \<open>None\<close> for an invalid date, against whose boundaries no
  comparison holds, so that no slot has an entry.
\<close>

definition fetchTimeSlotData :: "int \<Rightarrow> Date option \<Rightarrow> EntryData list \<Rightarrow> string \<Rightarrow> variant \<Rightarrow> TimeSlot list" where
  "fetchTimeSlotData tz parsed docs fetchDate fetchType =
     (case parsed of
        None \<Rightarrow> []
      | Some p \<Rightarrow>
          let slots = getTimeSlotBoundaries tz p;
              allEntries = sort_key createdAt
                (filter (\<lambda>d. date d = fetchDate \<and> type d = fetchType \<and> pending d = Some False) docs)
          in concat (map (\<lambda>slot.
               let slotEntries = filter (\<lambda>entry. createdAt entry \<ge> start slot \<and> createdAt entry < end' slot) allEntries;
                   summaryItems = aggregate fetchType slotEntries
               in if length slotEntries > 0
                  then [\<lparr>startTime = start slot, endTime = end' slot, entries = summaryItems\<rparr>]
                  else []) slots))"

text \<open>
  The summary of one number in the words of the specification: the sum of the amounts of
  the entries that carry the number, the count of their distinct users (the user of an
  entry being its \<open>userId\<close>, or its document identifier when it has none), and the least
  of their positive amounts, 0 when there is none. The sum is the exact one. The summary
  does not depend on the order of the entries, and is what \<open>aggregate\<close> is compared with.
\<close>

definition summaryOf :: "EntryData list \<Rightarrow> string \<Rightarrow> SummaryItem" where
  "summaryOf snapshot num =
     (let mine = filter (\<lambda>e. EntryData.number e = num) snapshot;
          positive = filter (\<lambda>a. a > 0) (map EntryData.amount mine)
      in \<lparr>SummaryItem.number = num,
          SummaryItem.total = sum_list (map EntryData.amount mine),
          userCount = length (remdups (map (\<lambda>e. orElse (userId e) (docId e)) mine)),
          SummaryItem.minAmount = (if positive = [] then 0 else Min (set positive))\<rparr>)"

text \<open>
  Entries whose amounts are whole numbers with magnitudes that sum to \<open>2^53\<close> at most.
  Every sum of some of them is then a whole number of magnitude \<open>2^53\<close> at most, which
  is a double.
\<close>

definition wholeAmounts :: "EntryData list \<Rightarrow> bool" where
  "wholeAmounts snapshot \<longleftrightarrow>
     (\<forall>e \<in> set snapshot. EntryData.amount e \<in> \<int>) \<and>
     sum_list (map (\<lambda>e. \<bar>EntryData.amount e\<bar>) snapshot) \<le> 2 ^ 53"

section \<open>Sample documents\<close>

text \<open>
  A conversion for the examples. It is \<open>Number\<close> on the strings the examples pass to
  it, which are decimal digits with an optional minus sign. It gives \<open>NaN\<close> on every
  other string, also where \<open>Number\<close> finds a number (a fraction, an exponent, blanks
  around the digits); no example has such a string.
\<close>

definition sampleNumber :: "string \<Rightarrow> rat option" where
  "sampleNumber s =
     (case s of
        [] \<Rightarrow> None
      | c # ds \<Rightarrow>
          if c = CHR ''-'' then (if ds \<noteq> [] \<and> list_all isDigit ds then Some (- of_nat (decimalValue ds)) else None)
          else if list_all isDigit s then Some (of_nat (decimalValue s)) else None)"

text \<open>A jodi bet filed under 2024-01-15, for the examples below.\<close>

definition sampleBet :: "string \<Rightarrow> string \<Rightarrow> rat \<Rightarrow> Date \<Rightarrow> bool \<Rightarrow> EntryData" where
  "sampleBet i num a t p =
     \<lparr>docId = i, EntryData.number = num, EntryData.amount = a, userId = None, createdAt = t,
      date = ''2024-01-15'', type = Jodi, pending = Some p, processedAt = None\<rparr>"

section \<open>Promotion of pending entries\<close>

text \<open>\<open>getCurrentTimeSlot\<close> at the time \<open>now\<close>.\<close>

definition getCurrentTimeSlot :: "int \<Rightarrow> Date \<Rightarrow> TimeSlot" where
  "getCurrentTimeSlot tz now =
     (let minutes = getMinutes tz now;
          roundedMinutes = (minutes div 15) * 15
      in \<lparr>startTime = setMinutes3 tz roundedMinutes 0 0 now,
          endTime = setMinutes3 tz (roundedMinutes + 15) 0 0 now,
          entries = []\<rparr>)"

text \<open>
  The loop of \<open>processPendingEntries\<close> over the documents of the snapshot. \<open>ids i\<close> is
  the identifier the store gives the \<open>i\<close>-th copy and \<open>clock i\<close> the value of
  \<open>Timestamp.now()\<close> read for it. A store operation may be rejected; \<open>fault\<close> says which
  one is the first: \<open>Some 0\<close> the query, \<open>Some (i + 1)\<close> the \<open>i\<close>-th \<open>addDoc\<close>, \<open>None\<close>
  none. The exception ends the loop, and the handler only logs it.
\<close>

fun promoteBatch :: "nat option \<Rightarrow> (nat \<Rightarrow> string) \<Rightarrow> (nat \<Rightarrow> Date) \<Rightarrow> nat \<Rightarrow> EntryData list \<Rightarrow> EntryData list \<Rightarrow> EntryData list" where
  "promoteBatch fault ids clock i [] docs = docs"
| "promoteBatch fault ids clock i (doc # batch) docs =
     (if fault = Some (Suc i) then docs
      else promoteBatch fault ids clock (Suc i) batch
             (addDoc (ids i) (doc\<lparr>pending := Some False, processedAt := Some (clock i)\<rparr>) docs))"

text \<open>
  \<open>processPendingEntries\<close>, as a function from the collection to the collection; \<open>date\<close>
  and \<open>type\<close> are the selections of the form, \<open>currentTimeSlot\<close> the state variable,
  \<open>null\<close> before the first tick.
\<close>

definition processPendingEntries :: "int \<Rightarrow> nat option \<Rightarrow> (nat \<Rightarrow> string) \<Rightarrow> (nat \<Rightarrow> Date) \<Rightarrow> TimeSlot option \<Rightarrow> string \<Rightarrow> variant \<Rightarrow> EntryData list \<Rightarrow> EntryData list" where
  "processPendingEntries tz fault ids clock currentTimeSlot date' type' docs =
     (case currentTimeSlot of
        None \<Rightarrow> docs
      | Some slot \<Rightarrow>
          let previousSlotStart = startTime slot;
              previousSlotStart = setMinutes tz (getMinutes tz previousSlotStart - 15) previousSlotStart;
              previousSlotEnd = startTime slot
          in if fault = Some 0 then docs
             else
               let batch = filter (\<lambda>d. date d = date' \<and> type d = type' \<and>
                                        createdAt d \<ge> previousSlotStart \<and> createdAt d < previousSlotEnd \<and>
                                        pending d = Some True) docs
               in promoteBatch fault ids clock 0 batch docs)"

text \<open>
  The effect that runs whenever \<open>currentTimeSlot\<close> is set, which the timer does every
  minute and the panel does when it is mounted: at the time \<open>now\<close> it starts
  \<open>processPendingEntries\<close> when the minute is a multiple of 15.
\<close>

definition promotionEffect :: "int \<Rightarrow> nat option \<Rightarrow> (nat \<Rightarrow> string) \<Rightarrow> (nat \<Rightarrow> Date) \<Rightarrow> TimeSlot option \<Rightarrow> Date \<Rightarrow> string \<Rightarrow> variant \<Rightarrow> EntryData list \<Rightarrow> EntryData list" where
  "promotionEffect tz fault ids clock currentTimeSlot now date' type' docs =
     (case currentTimeSlot of
        None \<Rightarrow> docs
      | Some slot \<Rightarrow>
          let minutes = getMinutes tz now;
              seconds = getSeconds tz now
          in if minutes mod 15 = 0 \<and> seconds < 60
             then processPendingEntries tz fault ids clock currentTimeSlot date' type' docs
             else docs)"

section \<open>Submission\<close>

text \<open>
  The outcomes of \<open>handleSubmit\<close>: an alert of the validation with its text, the
  collection after the \<open>addDoc\<close>, or the failure of the \<open>addDoc\<close>.
\<close>

datatype submitResult = ValidationFailed string | Saved "EntryData list" | SaveError

text \<open>
  \<open>handleSubmit\<close>. \<open>/^[1-9]$/\<close> and \<open>/^[0-9]{2}$/\<close> are tests on the whole string.
  \<open>Number\<close> on the amount is the conversion of the language, a parameter here, with
  \<open>None\<close> for \<open>NaN\<close>; on the two digits of a jodi number it is \<^const>\<open>decimalValue\<close>.
  \<open>storeUp\<close> says whether the store accepts the \<open>addDoc\<close>, \<open>newId\<close> is the identifier
  it generates and \<open>now\<close> the value of \<open>Timestamp.now()\<close>.
\<close>

definition handleSubmit :: "(string \<Rightarrow> rat option) \<Rightarrow> bool \<Rightarrow> string \<Rightarrow> Date \<Rightarrow> variant \<Rightarrow> string \<Rightarrow> string \<Rightarrow> string \<Rightarrow> EntryData list \<Rightarrow> submitResult" where
  "handleSubmit Number storeUp newId now type' date' number' amount' docs =
     (if type' = Single \<and> \<not> (length number' = 1 \<and> list_all (\<lambda>c. c \<in> set ''123456789'') number')
      then ValidationFailed ''Enter a single number from 1 to 9 without leading zero''
      else if type' = Jodi \<and> (\<not> (length number' = 2 \<and> list_all isDigit number') \<or>
                               decimalValue number' < 1 \<or> decimalValue number' > 99)
      then ValidationFailed ''Enter a jodi number from 01 to 99 with leading zero if < 10''
      else if amount' = [] \<or> Number amount' = None \<or> (case Number amount' of Some a \<Rightarrow> a \<le> 0 | None \<Rightarrow> False)
      then ValidationFailed ''Enter a valid amount''
      else if storeUp
      then Saved (addDoc newId
             \<lparr>docId = [], EntryData.number = number',
              EntryData.amount = (case Number amount' of Some a \<Rightarrow> a | None \<Rightarrow> 0),
              userId = None, createdAt = now, date = date', type = type',
              pending = Some True, processedAt = None\<rparr> docs)
      else SaveError)"

section \<open>Results viewer\<close>

text \<open>
  The cells of \<open>groupedSlots\<close>, one for each slot key and number.
\<close>

record NumberData =
  amount :: rat
  users :: "string list"

text \<open>
  \<open>groupedSlots\<close> and its values are plain objects used as dictionaries. Looking up a
  key that names a property every object inherits finds that property, not a cell: the
  test \<open>!groupedSlots[slotKey][entry.number]\<close> is then false, no cell is made, and
  \<open>.users.add\<close> on the inherited value raises a \<open>TypeError\<close>. A slot key is an ISO date
  and never such a name; a number may be.
\<close>

definition objectPrototypeNames :: "string list" where
  "objectPrototypeNames =
     [''constructor'', ''__defineGetter__'', ''__defineSetter__'', ''hasOwnProperty'',
      ''__lookupGetter__'', ''__lookupSetter__'', ''isPrototypeOf'', ''propertyIsEnumerable'',
      ''toString'', ''valueOf'', ''__proto__'', ''toLocaleString'']"

text \<open>
  The body of the loop \<open>rawData.forEach\<close> of \<open>fetchData\<close>, and the loop; \<open>None\<close> is
  the \<open>TypeError\<close>, which ends the loop. \<open>anon i\<close> is the string \<open>anonymous-...\<close> made
  up for the \<open>i\<close>-th entry when it names no user.
\<close>

definition groupEntry :: "int \<Rightarrow> (nat \<Rightarrow> string) \<Rightarrow> Date \<Rightarrow> nat \<Rightarrow>
    (Date \<rightharpoonup> (string \<rightharpoonup> NumberData)) \<Rightarrow> EntryData \<Rightarrow> (Date \<rightharpoonup> (string \<rightharpoonup> NumberData)) option" where
  "groupEntry tz anon now i groupedSlots entry =
     (let slotKey = getTimeSlotKey tz (createdAt entry);
          slotTime = slotKey
      in if slotTime \<le> now
         then
           if EntryData.number entry \<in> set objectPrototypeNames then None
           else
             let numberData = (case groupedSlots slotKey of None \<Rightarrow> Map.empty | Some nd \<Rightarrow> nd);
                 cell = (case numberData (EntryData.number entry) of
                           None \<Rightarrow> \<lparr>NumberData.amount = 0, NumberData.users = []\<rparr>
                         | Some c \<Rightarrow> c);
                 cell = cell\<lparr>NumberData.amount := NumberData.amount cell + EntryData.amount entry\<rparr>;
                 cell = cell\<lparr>NumberData.users := setAdd (NumberData.users cell)
                          (case userId entry of
                             None \<Rightarrow> anon i
                           | Some u \<Rightarrow> if u = [] then anon i else u)\<rparr>
             in Some (groupedSlots(slotKey \<mapsto> numberData(EntryData.number entry \<mapsto> cell)))
         else Some groupedSlots)"

fun groupEntries :: "int \<Rightarrow> (nat \<Rightarrow> string) \<Rightarrow> Date \<Rightarrow> nat \<Rightarrow> EntryData list \<Rightarrow>
    (Date \<rightharpoonup> (string \<rightharpoonup> NumberData)) \<Rightarrow> (Date \<rightharpoonup> (string \<rightharpoonup> NumberData)) option" where
  "groupEntries tz anon now i [] groupedSlots = Some groupedSlots"
| "groupEntries tz anon now i (entry # rawData) groupedSlots =
     (case groupEntry tz anon now i groupedSlots entry of
        None \<Rightarrow> None
      | Some groupedSlots' \<Rightarrow> groupEntries tz anon now (Suc i) rawData groupedSlots')"

text \<open>
  \<open>fetchData\<close> up to \<open>groupedSlots\<close>, from which it builds the slots it displays. The
  query selects on \<open>type\<close> and \<open>date\<close> and orders by \<open>createdAt\<close>, newest first; every
  \<open>createdAt\<close> of the model is a valid time, so the replacement of an invalid one by the
  current time does not occur. \<open>customTime\<close> is the optional argument and \<open>clockNow\<close> the
  value of \<open>new Date()\<close>. While \<open>isLoading\<close> is set the function returns at once; an
  exception in the loop is logged by the handler and leaves the display as it was.
\<close>

datatype fetchOutcome = Busy | Failed | Grouped "Date \<rightharpoonup> (string \<rightharpoonup> NumberData)"

definition fetchData :: "int \<Rightarrow> (nat \<Rightarrow> string) \<Rightarrow> bool \<Rightarrow> Date \<Rightarrow> Date option \<Rightarrow> variant \<Rightarrow> string \<Rightarrow>
    EntryData list \<Rightarrow> fetchOutcome" where
  "fetchData tz anon isLoading clockNow customTime viewType dateStr docs =
     (if isLoading then Busy
      else
        let rawData = rev (sort_key createdAt (filter (\<lambda>d. type d = viewType \<and> date d = dateStr) docs));
            now = (case customTime of Some t \<Rightarrow> t | None \<Rightarrow> clockNow)
        in case groupEntries tz anon now 0 rawData Map.empty of
             None \<Rightarrow> Failed
           | Some groupedSlots \<Rightarrow> Grouped groupedSlots)"


text \<open>
  \<open>Object.entries\<close> lists the own keys of an object: first the keys that are array
  indices (the decimal numerals without a leading zero, below \<open>2^32 - 1\<close>) in
  ascending order, then the other keys in the order in which they were created.
  \<open>ownKeys\<close> gives this order from the order of creation.
\<close>

definition isArrayIndex :: "string \<Rightarrow> bool" where
  "isArrayIndex k \<longleftrightarrow>
     k \<noteq> [] \<and> list_all isDigit k \<and> (k = ''0'' \<or> hd k \<noteq> CHR ''0'') \<and> decimalValue k < 2 ^ 32 - 1"

definition ownKeys :: "string list \<Rightarrow> string list" where
  "ownKeys created =
     sort_key decimalValue (filter isArrayIndex created) @ filter (\<lambda>k. \<not> isArrayIndex k) created"

text \<open>
  An entry of a displayed slot, \<open>EntryData & { userCount: number }\<close>. The object that
  \<open>fetchData\<close> builds has the fields \<open>number\<close>, \<open>amount\<close>, \<open>userCount\<close>,
  \<open>createdAt\<close>, \<open>date\<close> and \<open>type\<close> and no other: its \<open>id\<close> and \<open>userId\<close> are
  \<open>undefined\<close>, here the empty identifier and \<open>None\<close>. The viewer's \<open>TimeSlot\<close> is
  \<open>ViewerTimeSlot\<close>, without its locale-dependent label \<open>time\<close>; its \<open>timeKey\<close> is
  the time that the ISO string denotes.
\<close>

record SlotEntry = EntryData +
  userCount :: nat

record ViewerTimeSlot =
  timeKey :: Date
  entries :: "SlotEntry list"

text \<open>
  \<open>Object.entries(obj)\<close> for an object \<open>obj\<close> whose own keys are listed as \<open>keys\<close>.
\<close>

definition objectEntries :: "'k list \<Rightarrow> ('k \<rightharpoonup> 'v) \<Rightarrow> ('k \<times> 'v) list" where
  "objectEntries keys obj = concat (map (\<lambda>k. case obj k of None \<Rightarrow> [] | Some v \<Rightarrow> [(k, v)]) keys)"

text \<open>
  \<open>timeSlotsArray\<close>, made from \<open>groupedSlots\<close>. A slot key is created when the loop
  of \<open>fetchData\<close> meets the first counted entry of the slot, and a number of the slot
  when it meets the first counted entry of the slot with this number: \<open>foldl setAdd []\<close>
  gives the keys in this order. A slot key is an ISO string and no array index, so the
  slot keys are listed in the order of their creation. The slots are then sorted by
  their time, latest first.
\<close>

definition timeSlotsArray :: "int \<Rightarrow> Date \<Rightarrow> variant \<Rightarrow> string \<Rightarrow> EntryData list \<Rightarrow>
    (Date \<rightharpoonup> (string \<rightharpoonup> NumberData)) \<Rightarrow> ViewerTimeSlot list" where
  "timeSlotsArray tz now viewType dateStr rawData groupedSlots =
     (let counted = filter (\<lambda>entry. getTimeSlotKey tz (createdAt entry) \<le> now) rawData;
          slotKeys = foldl setAdd [] (map (\<lambda>entry. getTimeSlotKey tz (createdAt entry)) counted)
      in jsSort (\<lambda>a b. timeKey b - timeKey a)
           (map (\<lambda>p. case p of (key, numberData) \<Rightarrow>
              let numbers = ownKeys (foldl setAdd [] (map EntryData.number
                              (filter (\<lambda>entry. getTimeSlotKey tz (createdAt entry) = key) counted)));
                  slotEntries = map (\<lambda>q. case q of (num, cell) \<Rightarrow>
                      \<lparr>docId = [], EntryData.number = num, EntryData.amount = NumberData.amount cell,
                       userId = None, createdAt = key, date = dateStr, type = viewType,
                       pending = None, processedAt = None,
                       userCount = (if length (NumberData.users cell) = 0 then 1
                                    else length (NumberData.users cell))\<rparr>)
                    (objectEntries numbers numberData)
              in \<lparr>timeKey = key, entries = slotEntries\<rparr>)
              (objectEntries slotKeys groupedSlots)))"

text \<open>
  \<open>fetchData\<close> as a whole: the value it passes to \<open>setTimeSlots\<close>, and \<open>None\<close> when it
  does not call it, which leaves the displayed slots as they were.
\<close>

definition fetchTimeSlots :: "int \<Rightarrow> (nat \<Rightarrow> string) \<Rightarrow> bool \<Rightarrow> Date \<Rightarrow> Date option \<Rightarrow> variant \<Rightarrow> string \<Rightarrow>
    EntryData list \<Rightarrow> ViewerTimeSlot list option" where
  "fetchTimeSlots tz anon isLoading clockNow customTime viewType dateStr docs =
     (case fetchData tz anon isLoading clockNow customTime viewType dateStr docs of
        Grouped groupedSlots \<Rightarrow>
          let rawData = rev (sort_key createdAt (filter (\<lambda>d. type d = viewType \<and> date d = dateStr) docs));
              now = (case customTime of Some t \<Rightarrow> t | None \<Rightarrow> clockNow)
          in Some (timeSlotsArray tz now viewType dateStr rawData groupedSlots)
      | _ \<Rightarrow> None)"

section \<open>Least-bet ranking\<close>

record AggregatedBet =
  number :: string
  amount :: rat
  userCount :: nat

text \<open>
  The display of a slot first aggregates the entries of the slot anew. This is the body
  of its loop \<open>slot.entries.forEach\<close> on the two maps, for the \<open>i\<close>-th entry. The user
  of an entry is its \<open>userId\<close>, and without one the string \<open>entry-...\<close> that is made
  up for it from the time and a random number, here \<open>made i\<close>. The two maps get their
  keys together, so a key of the one is a key of the other and the \<open>None\<close> branches are
  never taken.
\<close>

definition addSlotEntry :: "(nat \<Rightarrow> string) \<Rightarrow> (string \<times> rat) list \<times> (string \<times> string list) list \<Rightarrow>
    nat \<times> SlotEntry \<Rightarrow> (string \<times> rat) list \<times> (string \<times> string list) list" where
  "addSlotEntry made maps indexed =
     (case maps of (numberAmountMap, numberUserMap) \<Rightarrow>
      case indexed of (i, entry) \<Rightarrow>
        let num = EntryData.number entry;
            fresh = \<not> mapHas num numberAmountMap;
            numberAmountMap = (if fresh then mapSet num 0 numberAmountMap else numberAmountMap);
            numberUserMap = (if fresh then mapSet num [] numberUserMap else numberUserMap);
            numberAmountMap = mapSet num
              (plusNumber (case map_of numberAmountMap num of None \<Rightarrow> 0 | Some a \<Rightarrow> a)
                 (EntryData.amount entry)) numberAmountMap;
            userIdentifier = orElse (userId entry) (made i);
            numberUserMap = (case map_of numberUserMap num of
                               None \<Rightarrow> numberUserMap
                             | Some s \<Rightarrow> mapSet num (setAdd s userIdentifier) numberUserMap)
        in (numberAmountMap, numberUserMap))"

text \<open>
  The list \<open>aggregatedBets\<close> of a slot: the loop over the entries, then
  \<open>numberAmountMap.forEach\<close>, which pushes a bet for each number with the size of its
  set of users.
\<close>

definition aggregateSlot :: "(nat \<Rightarrow> string) \<Rightarrow> SlotEntry list \<Rightarrow> AggregatedBet list" where
  "aggregateSlot made slotEntries =
     (case foldl (addSlotEntry made) ([], []) (enumerate 0 slotEntries) of
        (numberAmountMap, numberUserMap) \<Rightarrow>
          map (\<lambda>p. case p of (num, amt) \<Rightarrow>
                 \<lparr>AggregatedBet.number = num, amount = amt,
                  userCount = (case map_of numberUserMap num of None \<Rightarrow> 0 | Some s \<Rightarrow> length s)\<rparr>)
            numberAmountMap)"

text \<open>
  An element of \<open>allNumbersWithBets\<close>: the bet found for a number, or the placeholder
  \<open>{ number: num, amount: Infinity, userCount: Infinity }\<close>.
\<close>

datatype rankItem = Existing AggregatedBet | Sentinel string

fun itemNumber :: "rankItem \<Rightarrow> string" where
  "itemNumber (Existing bet) = AggregatedBet.number bet"
| "itemNumber (Sentinel num) = num"

text \<open>
  \<open>aggregatedBets.find(bet => bet.number === num)\<close>, and in its place the placeholder
  when no bet has the number.
\<close>

definition foundOrSentinel :: "AggregatedBet list \<Rightarrow> string \<Rightarrow> rankItem" where
  "foundOrSentinel aggregatedBets num =
     (case find (\<lambda>bet. AggregatedBet.number bet = num) aggregatedBets of
        Some existingBet \<Rightarrow> Existing existingBet
      | None \<Rightarrow> Sentinel num)"

definition allNumbersWithBets :: "variant \<Rightarrow> AggregatedBet list \<Rightarrow> rankItem list" where
  "allNumbersWithBets viewType aggregatedBets =
     (let maxNumber = (if viewType = Single then 9 else 99)
      in filter (\<lambda>item. viewType = Single \<or> itemNumber item \<noteq> ''00'')
           (map (\<lambda>i. let num = padStart (if viewType = Jodi then 2 else 1) CHR ''0'' (toString i)
                     in foundOrSentinel aggregatedBets num)
              [0..<maxNumber + 1]))"

text \<open>
  The comparator of the ranking. A difference that is \<open>NaN\<close>, when \<open>parseInt\<close> finds no
  digit, counts as zero for \<open>sort\<close>.
\<close>

definition compareBets :: "AggregatedBet \<Rightarrow> AggregatedBet \<Rightarrow> rat" where
  "compareBets a b =
     (if AggregatedBet.amount a \<noteq> AggregatedBet.amount b
      then AggregatedBet.amount a - AggregatedBet.amount b
      else if AggregatedBet.userCount a \<noteq> AggregatedBet.userCount b
      then of_nat (AggregatedBet.userCount a) - of_nat (AggregatedBet.userCount b)
      else (case (parseInt (AggregatedBet.number a), parseInt (AggregatedBet.number b)) of
              (Some x, Some y) \<Rightarrow> of_nat x - of_nat y
            | _ \<Rightarrow> 0))"

text \<open>\<open>.filter(item => item.amount !== Infinity)\<close> keeps the bets that were found.\<close>

fun finiteItems :: "rankItem list \<Rightarrow> AggregatedBet list" where
  "finiteItems [] = []"
| "finiteItems (Existing bet # items) = bet # finiteItems items"
| "finiteItems (Sentinel num # items) = finiteItems items"

text \<open>\<open>while (leastBetNumbers.length < 3) leastBetNumbers.push('-')\<close>\<close>

function padDashes :: "string list \<Rightarrow> string list" where
  "padDashes xs = (if length xs < 3 then padDashes (xs @ [''-'']) else xs)"
  by pat_completeness auto
termination
  by (relation "measure (\<lambda>xs. 3 - length xs)") auto

declare padDashes.simps [simp del]

definition rankedBets :: "variant \<Rightarrow> AggregatedBet list \<Rightarrow> AggregatedBet list" where
  "rankedBets viewType aggregatedBets =
     jsSort compareBets (finiteItems (allNumbersWithBets viewType aggregatedBets))"

definition leastBetNumbers :: "variant \<Rightarrow> AggregatedBet list \<Rightarrow> string list" where
  "leastBetNumbers viewType aggregatedBets =
     padDashes (map AggregatedBet.number (take 3 (rankedBets viewType aggregatedBets)))"

text \<open>
  The row of a slot in the display: the ranking of the bets aggregated from the entries
  of the slot.
\<close>

definition slotRow :: "(nat \<Rightarrow> string) \<Rightarrow> variant \<Rightarrow> ViewerTimeSlot \<Rightarrow> string list" where
  "slotRow made viewType slot = leastBetNumbers viewType (aggregateSlot made (entries slot))"

section \<open>The number domain\<close>

lemma generateAllNumbers_Single:
  "generateAllNumbers Single = map (\<lambda>c. [c]) ''123456789''"
  by code_simp

lemma generateAllNumbers_Jodi:
  "generateAllNumbers Jodi =
     [''01'', ''02'', ''03'', ''04'', ''05'', ''06'', ''07'', ''08'', ''09'', ''10'', ''11'',
      ''12'', ''13'', ''14'', ''15'', ''16'', ''17'', ''18'', ''19'', ''20'', ''21'', ''22'',
      ''23'', ''24'', ''25'', ''26'', ''27'', ''28'', ''29'', ''30'', ''31'', ''32'', ''33'',
      ''34'', ''35'', ''36'', ''37'', ''38'', ''39'', ''40'', ''41'', ''42'', ''43'', ''44'',
      ''45'', ''46'', ''47'', ''48'', ''49'', ''50'', ''51'', ''52'', ''53'', ''54'', ''55'',
      ''56'', ''57'', ''58'', ''59'', ''60'', ''61'', ''62'', ''63'', ''64'', ''65'', ''66'',
      ''67'', ''68'', ''69'', ''70'', ''71'', ''72'', ''73'', ''74'', ''75'', ''76'', ''77'',
      ''78'', ''79'', ''80'', ''81'', ''82'', ''83'', ''84'', ''85'', ''86'', ''87'', ''88'',
      ''89'', ''90'', ''91'', ''92'', ''93'', ''94'', ''95'', ''96'', ''97'', ''98'', ''99'']"
  by code_simp

text \<open>
  Claim C8. The numbers of the single variant are the nine strings \<open>1, ..., 9\<close> in this
  order, each a string of one character, and none of them contains the character \<open>0\<close>.
  The numbers of the jodi variant are the 99 strings \<open>01, ..., 99\<close> of two digits in
  this order; \<open>00\<close> is not one of them.
\<close>

theorem generateAllNumbers_domain:
  "generateAllNumbers Single = map (\<lambda>c. [c]) ''123456789'' \<and>
   \<not> list_ex (\<lambda>s. CHR ''0'' \<in> set s) (generateAllNumbers Single) \<and>
   generateAllNumbers Jodi =
     [''01'', ''02'', ''03'', ''04'', ''05'', ''06'', ''07'', ''08'', ''09'', ''10'', ''11'',
      ''12'', ''13'', ''14'', ''15'', ''16'', ''17'', ''18'', ''19'', ''20'', ''21'', ''22'',
      ''23'', ''24'', ''25'', ''26'', ''27'', ''28'', ''29'', ''30'', ''31'', ''32'', ''33'',
      ''34'', ''35'', ''36'', ''37'', ''38'', ''39'', ''40'', ''41'', ''42'', ''43'', ''44'',
      ''45'', ''46'', ''47'', ''48'', ''49'', ''50'', ''51'', ''52'', ''53'', ''54'', ''55'',
      ''56'', ''57'', ''58'', ''59'', ''60'', ''61'', ''62'', ''63'', ''64'', ''65'', ''66'',
      ''67'', ''68'', ''69'', ''70'', ''71'', ''72'', ''73'', ''74'', ''75'', ''76'', ''77'',
      ''78'', ''79'', ''80'', ''81'', ''82'', ''83'', ''84'', ''85'', ''86'', ''87'', ''88'',
      ''89'', ''90'', ''91'', ''92'', ''93'', ''94'', ''95'', ''96'', ''97'', ''98'', ''99''] \<and>
   length (generateAllNumbers Jodi) = 99 \<and>
   ''00'' \<notin> set (generateAllNumbers Jodi)"
  unfolding generateAllNumbers_Single generateAllNumbers_Jodi by simp

section \<open>Date arithmetic\<close>

lemma time_split:
  fixes x :: int
  shows "Day x * 86400000 + HourFromTime x * 3600000 + MinFromTime x * 60000
           + SecFromTime x * 1000 + msFromTime x = x"
proof -
  define s where "s = x div 1000"
  define m where "m = s div 60"
  define h where "h = m div 60"
  have m_eq: "x div 60000 = m"
    using zdiv_zmult2_eq [of 60 x 1000] by (simp add: m_def s_def)
  have h_eq: "x div 3600000 = h"
    using zdiv_zmult2_eq [of 60 x 60000] by (simp add: h_def m_eq)
  have d_eq: "x div 86400000 = h div 24"
    using zdiv_zmult2_eq [of 24 x 3600000] by (simp add: h_eq)
  have 1: "x = 1000 * s + x mod 1000" by (simp add: s_def)
  have 2: "s = 60 * m + s mod 60" by (simp add: m_def)
  have 3: "m = 60 * h + m mod 60" by (simp add: h_def)
  have 4: "h = 24 * (h div 24) + h mod 24" by simp
  show ?thesis
    unfolding Day_def HourFromTime_def MinFromTime_def SecFromTime_def msFromTime_def
      m_eq h_eq d_eq
    unfolding s_def [symmetric]
    using 1 2 3 4 by linarith
qed

lemma setMinutes_eq: "setMinutes tz m t = t + (m - getMinutes tz t) * 60000"
proof -
  have "setMinutes tz m t
      = Day (LocalTime tz t) * 86400000 + HourFromTime (LocalTime tz t) * 3600000 + m * 60000
          + SecFromTime (LocalTime tz t) * 1000 + msFromTime (LocalTime tz t) - tz * 60000"
    by (simp add: setMinutes_def Let_def UTC_def MakeDate_def MakeTime_def)
  also have "\<dots> = LocalTime tz t + (m - MinFromTime (LocalTime tz t)) * 60000 - tz * 60000"
    using time_split [of "LocalTime tz t"] by (simp add: algebra_simps)
  finally show ?thesis by (simp add: LocalTime_def getMinutes_def)
qed

lemma setSeconds_eq: "setSeconds tz s t = t + (s - SecFromTime (LocalTime tz t)) * 1000"
proof -
  have "setSeconds tz s t
      = Day (LocalTime tz t) * 86400000 + HourFromTime (LocalTime tz t) * 3600000
          + MinFromTime (LocalTime tz t) * 60000
          + s * 1000 + msFromTime (LocalTime tz t) - tz * 60000"
    by (simp add: setSeconds_def Let_def UTC_def MakeDate_def MakeTime_def)
  also have "\<dots> = LocalTime tz t + (s - SecFromTime (LocalTime tz t)) * 1000 - tz * 60000"
    using time_split [of "LocalTime tz t"] by (simp add: algebra_simps)
  finally show ?thesis by (simp add: LocalTime_def)
qed

lemma setMilliseconds_eq: "setMilliseconds tz ms t = t + (ms - msFromTime (LocalTime tz t))"
proof -
  have "setMilliseconds tz ms t
      = Day (LocalTime tz t) * 86400000 + HourFromTime (LocalTime tz t) * 3600000
          + MinFromTime (LocalTime tz t) * 60000
          + SecFromTime (LocalTime tz t) * 1000 + ms - tz * 60000"
    by (simp add: setMilliseconds_def Let_def UTC_def MakeDate_def MakeTime_def)
  also have "\<dots> = LocalTime tz t + (ms - msFromTime (LocalTime tz t)) - tz * 60000"
    using time_split [of "LocalTime tz t"] by (simp add: algebra_simps)
  finally show ?thesis by (simp add: LocalTime_def)
qed

lemma setHours_eq:
  "setHours tz h m s ms t = t - LocalTime tz t mod 86400000 + MakeTime h m s ms"
proof -
  have "Day (LocalTime tz t) * 86400000 = LocalTime tz t - LocalTime tz t mod 86400000"
    unfolding Day_def by (simp add: algebra_simps minus_mod_eq_mult_div)
  then show ?thesis
    by (simp add: setHours_def UTC_def MakeDate_def LocalTime_def)
qed

lemma setMinutes3_eq:
  "setMinutes3 tz m s ms t = t - LocalTime tz t mod 3600000 + MakeTime 0 m s ms"
proof -
  let ?l = "LocalTime tz t"
  have h: "?l div 3600000 = 24 * (?l div 86400000) + (?l div 3600000) mod 24"
    using zdiv_zmult2_eq [of 24 ?l 3600000] by simp
  have "Day ?l * 86400000 + HourFromTime ?l * 3600000 = (?l div 3600000) * 3600000"
    unfolding Day_def HourFromTime_def using h by linarith
  also have "\<dots> = ?l - ?l mod 3600000"
    by (simp add: algebra_simps minus_mod_eq_mult_div)
  finally show ?thesis
    by (simp add: setMinutes3_def Let_def UTC_def MakeDate_def MakeTime_def LocalTime_def algebra_simps)
qed

section \<open>The slot of a timestamp\<close>

lemma next_quarter:
  fixes M :: int
  shows "M - M mod 60 + ((M mod 60 + 1 + 14) div 15) * 15 = (M div 15 + 1) * 15"
proof -
  define a where "a = M mod 60"
  define q where "q = M div 60"
  have M: "M = a + 15 * (4 * q)" by (simp add: a_def q_def)
  have "(a + 15 * (4 * q)) div 15 = 4 * q + a div 15" by simp
  then have d: "M div 15 = 4 * q + a div 15" using M by simp
  have "(a + 1 + 14) div 15 = a div 15 + 1" by simp
  then show ?thesis
    unfolding a_def [symmetric] d using M by (simp add: algebra_simps)
qed

lemma sec_ms_split:
  fixes x :: int
  shows "SecFromTime x * 1000 + msFromTime x = x mod 60000"
proof -
  have "x div 1000 = 60 * (x div 60000) + (x div 1000) mod 60"
    using zdiv_zmult2_eq [of 60 x 1000] by simp
  moreover have "x = 1000 * (x div 1000) + x mod 1000" by simp
  moreover have "x = 60000 * (x div 60000) + x mod 60000" by simp
  ultimately show ?thesis unfolding SecFromTime_def msFromTime_def by linarith
qed

lemma clear_seconds_ms:
  "setMilliseconds tz 0 (setSeconds tz 0 t) = t - LocalTime tz t mod 60000"
proof -
  let ?l = "LocalTime tz t"
  have l2: "LocalTime tz (setSeconds tz 0 t) = ?l + 1000 * (- SecFromTime ?l)"
    by (simp add: setSeconds_eq LocalTime_def)
  have "msFromTime (?l + 1000 * (- SecFromTime ?l)) = msFromTime ?l"
    unfolding msFromTime_def by (rule mod_mult_self2)
  then have "setMilliseconds tz 0 (setSeconds tz 0 t)
      = t - (SecFromTime ?l * 1000 + msFromTime ?l)"
    unfolding setMilliseconds_eq l2 by (simp add: setSeconds_eq)
  then show ?thesis by (simp add: sec_ms_split)
qed

lemma getTimeSlotKey_closed:
  "getTimeSlotKey tz T = (LocalTime tz T div 900000 + 1) * 900000 - tz * 60000"
proof -
  define l where "l = LocalTime tz T"
  define M where "M = l div 60000"
  define r where "r = ((M mod 60 + 1 + 14) div 15) * 15"
  define l1 where "l1 = l + 60000 * (r - M mod 60)"
  have l1_div: "l1 div 60000 = M - M mod 60 + r"
    unfolding l1_def M_def by simp
  have q: "l div 900000 = M div 15"
    using zdiv_zmult2_eq [of 15 l 60000] by (simp add: M_def)
  have t1: "LocalTime tz (setMinutes tz r T) = l1"
    by (simp add: setMinutes_eq getMinutes_def MinFromTime_def l1_def l_def M_def LocalTime_def)
  have "getTimeSlotKey tz T = setMilliseconds tz 0 (setSeconds tz 0 (setMinutes tz r T))"
    by (simp add: getTimeSlotKey_def Let_def r_def M_def l_def getMinutes_def MinFromTime_def)
  also have "\<dots> = setMinutes tz r T - l1 mod 60000"
    by (simp add: clear_seconds_ms t1)
  also have "\<dots> = (l1 - l1 mod 60000) - tz * 60000"
    using t1 by (simp add: LocalTime_def)
  also have "l1 - l1 mod 60000 = (l1 div 60000) * 60000"
    by (simp add: minus_mod_eq_div_mult)
  also have "l1 div 60000 = (M div 15 + 1) * 15"
    unfolding l1_div r_def by (rule next_quarter)
  finally show ?thesis
    using q unfolding l_def by simp
qed

text \<open>
  Claim C3. Let \<open>M\<close> be the minute offset of the timestamp \<open>T\<close> in local time (the
  whole minutes since the epoch). The slot key of \<open>T\<close> has seconds and milliseconds
  zero, its minute offset is a multiple of 15 that is strictly greater than \<open>M\<close>, and no
  smaller multiple of 15 is strictly greater than \<open>M\<close>; the carry into the next hour and
  day is part of the offset. The key is later than \<open>T\<close>, by at most 15 minutes, and a
  timestamp exactly on a boundary maps to the next boundary, 15 minutes later. On any
  day, 12:07:00 maps to 12:15:00 and 12:15:00 to 12:30:00.
\<close>

theorem getTimeSlotKey_next_boundary:
  "LocalTime tz (getTimeSlotKey tz T) mod 60000 = 0 \<and>
   (LocalTime tz (getTimeSlotKey tz T) div 60000) mod 15 = 0 \<and>
   LocalTime tz T div 60000 < LocalTime tz (getTimeSlotKey tz T) div 60000 \<and>
   (\<forall>R. R mod 15 = 0 \<and> LocalTime tz T div 60000 < R
         \<longrightarrow> LocalTime tz (getTimeSlotKey tz T) div 60000 \<le> R) \<and>
   T < getTimeSlotKey tz T \<and>
   getTimeSlotKey tz T \<le> T + 900000 \<and>
   (LocalTime tz T mod 900000 = 0 \<longrightarrow> getTimeSlotKey tz T = T + 900000) \<and>
   getTimeSlotKey tz (UTC tz (MakeDate d (MakeTime 12 7 0 0))) = UTC tz (MakeDate d (MakeTime 12 15 0 0)) \<and>
   getTimeSlotKey tz (UTC tz (MakeDate d (MakeTime 12 15 0 0))) = UTC tz (MakeDate d (MakeTime 12 30 0 0))"
proof -
  define l where "l = LocalTime tz T"
  define q where "q = l div 900000"
  have K: "LocalTime tz (getTimeSlotKey tz T) = 60000 * (15 * (q + 1))"
    by (simp add: getTimeSlotKey_closed LocalTime_def q_def l_def)
  have Kdiv: "LocalTime tz (getTimeSlotKey tz T) div 60000 = 15 * (q + 1)"
    unfolding K by simp
  have Md: "(l div 60000) div 15 = q"
    using zdiv_zmult2_eq [of 15 l 60000] by (simp add: q_def)
  have l_split: "l = 900000 * q + l mod 900000" by (simp add: q_def)
  have l_lo: "0 \<le> l mod 900000" and l_hi: "l mod 900000 < 900000" by simp_all
  have KT: "getTimeSlotKey tz T - T = 900000 - l mod 900000"
    using K l_split by (simp add: LocalTime_def l_def)
  have c1: "LocalTime tz (getTimeSlotKey tz T) mod 60000 = 0" unfolding K by simp
  have c2: "(LocalTime tz (getTimeSlotKey tz T) div 60000) mod 15 = 0" unfolding Kdiv by simp
  have c3: "l div 60000 < 15 * (q + 1)"
  proof -
    define X where "X = l div 60000"
    have "X < 15 * (X div 15 + 1)" by presburger
    then show ?thesis using Md by (simp add: X_def)
  qed
  have c4: "15 * (q + 1) \<le> R" if "R mod 15 = 0" "l div 60000 < R" for R
  proof -
    define X where "X = l div 60000"
    have "R mod 15 = 0 \<Longrightarrow> X < R \<Longrightarrow> 15 * (X div 15 + 1) \<le> R" by presburger
    then show ?thesis using that Md by (simp add: X_def)
  qed
  have c5: "T < getTimeSlotKey tz T" using KT l_hi by linarith
  have c6: "getTimeSlotKey tz T \<le> T + 900000" using KT l_lo by linarith
  have c7: "l mod 900000 = 0 \<longrightarrow> getTimeSlotKey tz T = T + 900000" using KT by auto
  have day: "(d * 86400000 + x) div 900000 = d * 96 + x div 900000" for x :: int
  proof -
    have "(x + 900000 * (d * 96)) div 900000 = d * 96 + x div 900000"
      by (rule div_mult_self2) simp
    then show ?thesis by (simp add: algebra_simps)
  qed
  have c8: "getTimeSlotKey tz (UTC tz (MakeDate d (MakeTime 12 7 0 0))) = UTC tz (MakeDate d (MakeTime 12 15 0 0))"
    by (simp add: getTimeSlotKey_closed LocalTime_def UTC_def MakeDate_def MakeTime_def day)
  have c9: "getTimeSlotKey tz (UTC tz (MakeDate d (MakeTime 12 15 0 0))) = UTC tz (MakeDate d (MakeTime 12 30 0 0))"
    by (simp add: getTimeSlotKey_closed LocalTime_def UTC_def MakeDate_def MakeTime_def day)
  show ?thesis
    unfolding Kdiv l_def [symmetric]
    using c3 c4 c7 by (simp add: c1 c5 c6 c8 c9)
qed

theorem getTimeSlotKey_next_boundary_witness:
  "LocalTime 330 1705301100000 mod 900000 = 0 \<and>
   getTimeSlotKey 330 1705301100000 = 1705302000000 \<and>
   (28422030::int) mod 15 = 0 \<and>
   LocalTime 330 1705301100000 div 60000 < 28422030 \<and>
   LocalTime 330 (getTimeSlotKey 330 1705301100000) div 60000 \<le> 28422030"
proof -
  note th = getTimeSlotKey_next_boundary [of 330 1705301100000 0]
  have h1: "LocalTime 330 1705301100000 mod 900000 = 0"
    by (simp add: LocalTime_def)
  have h2: "(28422030::int) mod 15 = 0 \<and> LocalTime 330 1705301100000 div 60000 < 28422030"
    by (simp add: LocalTime_def)
  from th have "LocalTime 330 1705301100000 mod 900000 = 0
      \<longrightarrow> getTimeSlotKey 330 1705301100000 = 1705301100000 + 900000"
    by (elim conjE) assumption
  with h1 have k: "getTimeSlotKey 330 1705301100000 = 1705302000000"
    by simp
  from th have "\<forall>R. R mod 15 = 0 \<and> LocalTime 330 1705301100000 div 60000 < R
      \<longrightarrow> LocalTime 330 (getTimeSlotKey 330 1705301100000) div 60000 \<le> R"
    by (elim conjE) assumption
  with h2 have "LocalTime 330 (getTimeSlotKey 330 1705301100000) div 60000 \<le> 28422030"
    by (elim allE [where x = 28422030] impE) assumption+
  with h1 h2 k show ?thesis by (intro conjI) (elim conjE, assumption)+
qed

section \<open>The slots of a day\<close>

lemma insertBy_last: "\<forall>y\<in>set ys. 0 < cmp x y \<Longrightarrow> insertBy cmp x ys = ys @ [x]"
  by (induction ys) (auto simp: not_le)

lemma jsSort_ascending: "sorted_wrt (\<lambda>a b. 0 < cmp a b) xs \<Longrightarrow> jsSort cmp xs = rev xs"
proof (induction xs)
  case Nil
  then show ?case by (simp add: jsSort_def)
next
  case (Cons x xs)
  then have "jsSort cmp xs = rev xs" by simp
  then have "jsSort cmp (x # xs) = insertBy cmp x (rev xs)" by (simp add: jsSort_def)
  also have "\<dots> = rev xs @ [x]" using Cons.prems by (intro insertBy_last) simp
  finally show ?case by simp
qed

lemma baseDate_midnight:
  "LocalTime tz (setHours tz 0 0 0 0 parsed) mod 86400000 = 0"
proof -
  have "LocalTime tz (setHours tz 0 0 0 0 parsed)
      = LocalTime tz parsed - LocalTime tz parsed mod 86400000"
    by (simp add: setHours_eq MakeTime_def LocalTime_def)
  then show ?thesis by (simp add: minus_mod_eq_mult_div)
qed

lemma slot_of_day:
  assumes "LocalTime tz base mod 86400000 = 0" "0 \<le> minute" "minute < 60"
  shows "(let start = setHours tz hour minute 0 0 base;
              end = setMinutes tz (minute + 15) start
          in \<lparr>start = start, end' = end\<rparr>)
         = \<lparr>start = base + (hour * 3600000 + minute * 60000),
            end' = base + (hour * 3600000 + minute * 60000) + 900000\<rparr>"
proof -
  have s: "setHours tz hour minute 0 0 base = base + (hour * 3600000 + minute * 60000)"
    using assms(1) by (simp add: setHours_eq MakeTime_def)
  obtain k where k: "LocalTime tz base = 86400000 * k"
    using assms(1) by (auto simp: mod_eq_0_iff_dvd elim: dvdE)
  have "LocalTime tz (base + (hour * 3600000 + minute * 60000))
      = minute * 60000 + 60000 * (60 * (k * 24 + hour))"
    using k by (simp add: LocalTime_def algebra_simps)
  then have "LocalTime tz (base + (hour * 3600000 + minute * 60000)) div 60000
      = minute + 60 * (k * 24 + hour)"
    by (simp del: distrib_left_numeral)
  moreover have "(minute + 60 * (k * 24 + hour)) mod 60 = minute"
    using assms(2,3) by (simp del: distrib_left_numeral)
  ultimately have "getMinutes tz (base + (hour * 3600000 + minute * 60000)) = minute"
    unfolding getMinutes_def MinFromTime_def by (rule ssubst)
  then show ?thesis
    unfolding Let_def s setMinutes_eq by simp
qed

lemma getTimeSlotBoundaries_closed:
  "getTimeSlotBoundaries tz parsed =
     rev (map (\<lambda>k. \<lparr>start = setHours tz 0 0 0 0 parsed + int k * 900000,
                    end' = setHours tz 0 0 0 0 parsed + int k * 900000 + 900000\<rparr>) [0..<96])"
proof -
  define base where "base = setHours tz 0 0 0 0 parsed"
  have mid: "LocalTime tz base mod 86400000 = 0"
    unfolding base_def by (rule baseDate_midnight)
  have inner: "map (\<lambda>minute.
                    let start = setHours tz hour minute 0 0 base;
                        end = setMinutes tz (minute + 15) start
                    in \<lparr>start = start, end' = end\<rparr>) [0, 15, 30, 45]
      = map (\<lambda>minute. \<lparr>start = base + (hour * 3600000 + minute * 60000),
            end' = base + (hour * 3600000 + minute * 60000) + 900000\<rparr>) [0, 15, 30, 45]" for hour
  proof (rule map_cong [OF refl])
    fix minute :: int
    assume "minute \<in> set [0, 15, 30, 45]"
    then have "0 \<le> minute" "minute < 60" by auto
    then show "(let start = setHours tz hour minute 0 0 base;
                    end = setMinutes tz (minute + 15) start
                in \<lparr>start = start, end' = end\<rparr>)
         = \<lparr>start = base + (hour * 3600000 + minute * 60000),
            end' = base + (hour * 3600000 + minute * 60000) + 900000\<rparr>"
      by (rule slot_of_day [OF mid])
  qed
  have slots: "concat (map (\<lambda>hour. map (\<lambda>minute.
                    let start = setHours tz hour minute 0 0 base;
                        end = setMinutes tz (minute + 15) start
                    in \<lparr>start = start, end' = end\<rparr>) [0, 15, 30, 45]) [0..23])
      = map (\<lambda>k. \<lparr>start = base + int k * 900000, end' = base + int k * 900000 + 900000\<rparr>) [0..<96]"
    unfolding inner by (simp add: upt_rec upto.simps)
  have "sorted_wrt (\<lambda>i j. i < j) [0..<96]"
    by (simp add: sorted_wrt_upt)
  then have "sorted_wrt (\<lambda>a b. 0 < start b - start a) (map (\<lambda>k. \<lparr>start = base + int k * 900000, end' = base + int k * 900000 + 900000\<rparr>) [0..<96])"
    unfolding sorted_wrt_map by (rule sorted_wrt_mono_rel [rotated]) simp
  then have "jsSort (\<lambda>a b. start b - start a) (map (\<lambda>k. \<lparr>start = base + int k * 900000, end' = base + int k * 900000 + 900000\<rparr>) [0..<96])
      = rev (map (\<lambda>k. \<lparr>start = base + int k * 900000, end' = base + int k * 900000 + 900000\<rparr>) [0..<96])"
    by (rule jsSort_ascending)
  moreover note slots [unfolded Let_def]
  ultimately show ?thesis
    unfolding getTimeSlotBoundaries_def Let_def base_def [symmetric] by (rule ssubst [rotated])
qed







section \<open>The least-bet ranking\<close>

lemma padDashes_eq: "padDashes xs = xs @ replicate (3 - length xs) ''-''"
proof (induction xs rule: padDashes.induct)
  case (1 xs)
  show ?case
  proof (cases "length xs < 3")
    case True
    then have "padDashes xs = padDashes (xs @ [''-''])" by (simp add: padDashes.simps [of xs])
    also have "\<dots> = (xs @ [''-'']) @ replicate (3 - length (xs @ [''-''])) ''-''"
      using True by (rule "1.IH")
    also have "\<dots> = xs @ replicate (3 - length xs) ''-''"
      using True by (simp add: replicate_append_same Suc_diff_Suc flip: replicate_Suc)
    finally show ?thesis .
  next
    case False
    then show ?thesis by (simp add: padDashes.simps [of xs])
  qed
qed

lemma insertBy_insort_key:
  assumes "\<forall>y\<in>set ys. cmp x y \<le> 0 \<longleftrightarrow> key x \<le> key y"
  shows "insertBy cmp x ys = insort_key key x ys"
  using assms by (induction ys) auto

lemma jsSort_sort_key:
  assumes "\<forall>x\<in>set xs. \<forall>y\<in>set xs. cmp x y \<le> 0 \<longleftrightarrow> key x \<le> key y"
  shows "jsSort cmp xs = sort_key key xs"
  using assms
proof (induction xs)
  case Nil
  then show ?case by (simp add: jsSort_def)
next
  case (Cons x xs)
  then have "jsSort cmp xs = sort_key key xs" by simp
  then have "jsSort cmp (x # xs) = insertBy cmp x (sort_key key xs)"
    by (simp add: jsSort_def)
  also have "\<dots> = insort_key key x (sort_key key xs)"
    using Cons.prems by (intro insertBy_insort_key) simp
  finally show ?case by simp
qed

lemma compareBets_key:
  assumes "parseInt (AggregatedBet.number a) = Some (decimalValue (AggregatedBet.number a))"
    and "parseInt (AggregatedBet.number b) = Some (decimalValue (AggregatedBet.number b))"
  shows "compareBets a b \<le> 0 \<longleftrightarrow>
    (AggregatedBet.amount a, AggregatedBet.userCount a, decimalValue (AggregatedBet.number a))
      \<le> (AggregatedBet.amount b, AggregatedBet.userCount b, decimalValue (AggregatedBet.number b))"
  using assms by (auto simp: compareBets_def less_eq_prod_def)

lemma itemNumber_foundOrSentinel: "itemNumber (foundOrSentinel aggregatedBets num) = num"
  by (auto simp: foundOrSentinel_def split: option.splits simp: find_Some_iff)

lemma filter_items:
  "filter (\<lambda>item. P (itemNumber item)) (map (\<lambda>i. foundOrSentinel bets (f i)) idx)
     = map (foundOrSentinel bets) (filter P (map f idx))"
  by (induction idx) (auto simp: itemNumber_foundOrSentinel)

lemma allNumbersWithBets_filter:
  "allNumbersWithBets viewType aggregatedBets =
     map (foundOrSentinel aggregatedBets)
       (filter (\<lambda>num. viewType = Single \<or> num \<noteq> ''00'')
          (map (\<lambda>i. padStart (if viewType = Jodi then 2 else 1) CHR ''0'' (toString i))
             [0..<(if viewType = Single then 9 else 99) + 1]))"
  unfolding allNumbersWithBets_def Let_def by (rule filter_items)

lemma allNumbersWithBets_map:
  "allNumbersWithBets viewType aggregatedBets =
     map (foundOrSentinel aggregatedBets) (map itemNumber (allNumbersWithBets viewType []))"
proof -
  have "map itemNumber (map (foundOrSentinel []) nums) = nums" for nums
    by (induction nums) (simp_all add: itemNumber_foundOrSentinel)
  then show ?thesis
    unfolding allNumbersWithBets_filter [of viewType "[]"]
    by (simp only: allNumbersWithBets_filter)
qed

lemma rank_domain_Single:
  "map itemNumber (allNumbersWithBets Single []) = map (\<lambda>c. [c]) ''0123456789''"
  by code_simp

lemma rank_domain_Jodi:
  "map itemNumber (allNumbersWithBets Jodi []) =
     [''01'', ''02'', ''03'', ''04'', ''05'', ''06'', ''07'', ''08'', ''09'', ''10'', ''11'',
      ''12'', ''13'', ''14'', ''15'', ''16'', ''17'', ''18'', ''19'', ''20'', ''21'', ''22'',
      ''23'', ''24'', ''25'', ''26'', ''27'', ''28'', ''29'', ''30'', ''31'', ''32'', ''33'',
      ''34'', ''35'', ''36'', ''37'', ''38'', ''39'', ''40'', ''41'', ''42'', ''43'', ''44'',
      ''45'', ''46'', ''47'', ''48'', ''49'', ''50'', ''51'', ''52'', ''53'', ''54'', ''55'',
      ''56'', ''57'', ''58'', ''59'', ''60'', ''61'', ''62'', ''63'', ''64'', ''65'', ''66'',
      ''67'', ''68'', ''69'', ''70'', ''71'', ''72'', ''73'', ''74'', ''75'', ''76'', ''77'',
      ''78'', ''79'', ''80'', ''81'', ''82'', ''83'', ''84'', ''85'', ''86'', ''87'', ''88'',
      ''89'', ''90'', ''91'', ''92'', ''93'', ''94'', ''95'', ''96'', ''97'', ''98'', ''99'']"
  by code_simp

lemma rank_domain_parseInt:
  "list_all (\<lambda>num. parseInt num = Some (decimalValue num)) (map itemNumber (allNumbersWithBets viewType []))"
proof (cases viewType)
  case Jodi
  show ?thesis unfolding Jodi rank_domain_Jodi by code_simp
next
  case Single
  show ?thesis unfolding Single rank_domain_Single by code_simp
qed

lemma rank_domain_distinct:
  "distinct (map decimalValue (map itemNumber (allNumbersWithBets viewType [])))"
proof (cases viewType)
  case Jodi
  have "map decimalValue (map itemNumber (allNumbersWithBets Jodi [])) = [1..<100]"
    unfolding rank_domain_Jodi by code_simp
  then show ?thesis unfolding Jodi by (simp only: distinct_upt)
next
  case Single
  have "map decimalValue (map itemNumber (allNumbersWithBets Single [])) = [0..<10]"
    unfolding rank_domain_Single by code_simp
  then show ?thesis unfolding Single by (simp only: distinct_upt)
qed

lemma finiteItems_numbers:
  "map AggregatedBet.number (finiteItems (map (foundOrSentinel aggregatedBets) nums))
   = filter (\<lambda>num. num \<in> AggregatedBet.number ` set aggregatedBets) nums"
proof (induction nums)
  case Nil
  then show ?case by simp
next
  case (Cons num nums)
  show ?case
  proof (cases "find (\<lambda>bet. AggregatedBet.number bet = num) aggregatedBets")
    case None
    then have "num \<notin> AggregatedBet.number ` set aggregatedBets"
      by (auto simp: find_None_iff)
    with None Cons show ?thesis by (simp add: foundOrSentinel_def)
  next
    case (Some b)
    then have "AggregatedBet.number b = num" "b \<in> set aggregatedBets"
      by (auto simp: find_Some_iff)
    then have "num \<in> AggregatedBet.number ` set aggregatedBets" by auto
    with Some Cons \<open>AggregatedBet.number b = num\<close> show ?thesis by (simp add: foundOrSentinel_def)
  qed
qed

lemma candidates_numbers:
  "map AggregatedBet.number (finiteItems (allNumbersWithBets viewType aggregatedBets))
     = filter (\<lambda>num. num \<in> AggregatedBet.number ` set aggregatedBets)
         (map itemNumber (allNumbersWithBets viewType []))"
  by (subst allNumbersWithBets_map) (rule finiteItems_numbers)

lemma rankedBets_sort_key:
  "rankedBets viewType aggregatedBets =
     sort_key (\<lambda>b. (AggregatedBet.amount b, AggregatedBet.userCount b, decimalValue (AggregatedBet.number b)))
       (finiteItems (allNumbersWithBets viewType aggregatedBets))"
proof -
  let ?cands = "finiteItems (allNumbersWithBets viewType aggregatedBets)"
  have "parseInt (AggregatedBet.number b) = Some (decimalValue (AggregatedBet.number b))"
    if "b \<in> set ?cands" for b
  proof -
    from that have "AggregatedBet.number b \<in> set (map AggregatedBet.number ?cands)" by simp
    then have "AggregatedBet.number b \<in> set (map itemNumber (allNumbersWithBets viewType []))"
      unfolding candidates_numbers by simp
    then show ?thesis
      using rank_domain_parseInt [of viewType] unfolding list_all_iff by blast
  qed
  then show ?thesis
    unfolding rankedBets_def by (intro jsSort_sort_key ballI compareBets_key)
qed

lemma rankedBets_distinct:
  "distinct (map (\<lambda>b. decimalValue (AggregatedBet.number b)) (rankedBets viewType aggregatedBets))"
proof -
  let ?cands = "finiteItems (allNumbersWithBets viewType aggregatedBets)"
  have "distinct (map decimalValue (map AggregatedBet.number ?cands))"
    unfolding candidates_numbers by (intro distinct_map_filter rank_domain_distinct)
  then have "distinct (map (\<lambda>b. decimalValue (AggregatedBet.number b)) ?cands)"
    by (simp add: o_def)
  moreover have "mset (map (\<lambda>b. decimalValue (AggregatedBet.number b)) (rankedBets viewType aggregatedBets))
      = mset (map (\<lambda>b. decimalValue (AggregatedBet.number b)) ?cands)"
    unfolding rankedBets_sort_key by simp
  ultimately show ?thesis by (metis mset_eq_imp_distinct_iff)
qed

text \<open>
  The ranking of a list of aggregated bets. The numbers ranked are the numbers of the
  displayed domain for which the list has a bet; a number without a bet carries the
  sentinel amount and is left out. The ranked bets are these candidates in strictly
  ascending lexicographic order of amount, then user count, then numeric value of the
  number. The result is the numbers of the first three of them, padded on the right with
  \<open>-\<close>, and so always has three strings. The displayed domain is the legal domain of
  the jodi variant, and \<open>0\<close> followed by the legal domain of the single variant.
\<close>

lemma rankedBets_order:
  "set (map AggregatedBet.number (rankedBets viewType aggregatedBets))
     = set (map itemNumber (allNumbersWithBets viewType [])) \<inter> AggregatedBet.number ` set aggregatedBets \<and>
   mset (rankedBets viewType aggregatedBets) = mset (finiteItems (allNumbersWithBets viewType aggregatedBets)) \<and>
   sorted_wrt (\<lambda>a b.
       AggregatedBet.amount a < AggregatedBet.amount b \<or>
       AggregatedBet.amount a = AggregatedBet.amount b \<and>
         (AggregatedBet.userCount a < AggregatedBet.userCount b \<or>
          AggregatedBet.userCount a = AggregatedBet.userCount b \<and>
            decimalValue (AggregatedBet.number a) < decimalValue (AggregatedBet.number b)))
     (rankedBets viewType aggregatedBets) \<and>
   leastBetNumbers viewType aggregatedBets
     = map AggregatedBet.number (take 3 (rankedBets viewType aggregatedBets))
         @ replicate (3 - length (rankedBets viewType aggregatedBets)) ''-'' \<and>
   length (leastBetNumbers viewType aggregatedBets) = 3 \<and>
   map itemNumber (allNumbersWithBets Jodi []) = generateAllNumbers Jodi \<and>
   map itemNumber (allNumbersWithBets Single []) = ''0'' # generateAllNumbers Single"
proof -
  let ?key = "\<lambda>b. (AggregatedBet.amount b, AggregatedBet.userCount b, decimalValue (AggregatedBet.number b))"
  let ?r = "rankedBets viewType aggregatedBets"
  have c1: "set (map AggregatedBet.number ?r)
     = set (map itemNumber (allNumbersWithBets viewType [])) \<inter> AggregatedBet.number ` set aggregatedBets"
  proof -
    have "set (map AggregatedBet.number ?r)
        = set (map AggregatedBet.number (finiteItems (allNumbersWithBets viewType aggregatedBets)))"
      unfolding rankedBets_sort_key by simp
    then show ?thesis unfolding candidates_numbers by auto
  qed
  have c2: "mset ?r = mset (finiteItems (allNumbersWithBets viewType aggregatedBets))"
    unfolding rankedBets_sort_key by simp
  have "sorted (map ?key ?r)"
    unfolding rankedBets_sort_key by (rule sorted_sort_key)
  moreover have "distinct (map ?key ?r)"
    using rankedBets_distinct [of viewType aggregatedBets]
    by (auto simp: distinct_map inj_on_def)
  ultimately have "sorted_wrt (<) (map ?key ?r)"
    by (simp add: strict_sorted_iff)
  then have c3: "sorted_wrt (\<lambda>a b.
       AggregatedBet.amount a < AggregatedBet.amount b \<or>
       AggregatedBet.amount a = AggregatedBet.amount b \<and>
         (AggregatedBet.userCount a < AggregatedBet.userCount b \<or>
          AggregatedBet.userCount a = AggregatedBet.userCount b \<and>
            decimalValue (AggregatedBet.number a) < decimalValue (AggregatedBet.number b))) ?r"
    unfolding sorted_wrt_map
    by (rule sorted_wrt_mono_rel [rotated]) (auto simp: less_prod_def)
  have c4: "leastBetNumbers viewType aggregatedBets
     = map AggregatedBet.number (take 3 ?r) @ replicate (3 - length ?r) ''-''"
    by (simp add: leastBetNumbers_def padDashes_eq min_def)
  have c5: "length (leastBetNumbers viewType aggregatedBets) = 3"
    unfolding c4 by simp
  have c8: "map itemNumber (allNumbersWithBets Jodi []) = generateAllNumbers Jodi"
    unfolding rank_domain_Jodi generateAllNumbers_Jodi ..
  have c9: "map itemNumber (allNumbersWithBets Single []) = ''0'' # generateAllNumbers Single"
    unfolding rank_domain_Single generateAllNumbers_Single by simp
  show ?thesis
    by (intro conjI c1 c2 c3 c4 c5 c8 c9)
qed

section \<open>Sums of whole numbers\<close>

text \<open>
  A whole number of magnitude \<open>2^53\<close> at most is a double, so that the sum of two
  whole numbers is exact when its magnitude is \<open>2^53\<close> at most.
\<close>

lemma bitLength_bounds:
  "n > 0 \<Longrightarrow> 2 ^ (bitLength n - 1) \<le> n \<and> n < 2 ^ bitLength n"
proof (induction n rule: bitLength.induct)
  case (1 n)
  show ?case
  proof (cases "n div 2 \<le> 0")
    case True
    with 1 have "n = 1" by linarith
    then show ?thesis by (simp add: bitLength.simps [of 1] bitLength.simps [of 0])
  next
    case False
    then have pos: "n div 2 > 0" by simp
    from 1 have n: "\<not> n \<le> 0" by simp
    from "1.IH" [OF n pos] have lo: "2 ^ (bitLength (n div 2) - 1) \<le> n div 2"
      and hi: "n div 2 < 2 ^ bitLength (n div 2)" by simp_all
    have b: "bitLength n = Suc (bitLength (n div 2))"
      using n by (simp add: bitLength.simps [of n])
    have bp: "bitLength (n div 2) > 0"
      using pos by (simp add: bitLength.simps [of "n div 2"])
    have "(2::int) ^ (bitLength n - 1) = 2 * 2 ^ (bitLength (n div 2) - 1)"
      unfolding b using bp by (cases "bitLength (n div 2)") simp_all
    also have "\<dots> \<le> 2 * (n div 2)" using lo by simp
    also have "\<dots> \<le> n" by simp
    finally have 1: "2 ^ (bitLength n - 1) \<le> n" .
    have "n < 2 * (n div 2) + 2" by presburger
    also have "\<dots> \<le> 2 * 2 ^ bitLength (n div 2)" using hi by simp
    finally have "n < 2 ^ bitLength n" unfolding b by simp
    with 1 show ?thesis ..
  qed
qed

lemma roundHalfEven_of_int: "roundHalfEven (of_int m) = m"
  by (simp add: roundHalfEven_def)

lemma floorLog2_of_int:
  assumes "n > 0"
  shows "floorLog2 (of_int n) = int (bitLength n) - 1"
proof -
  have b1: "bitLength 1 = 1"
    by (simp add: bitLength.simps [of 1] bitLength.simps [of 0])
  from bitLength_bounds [OF assms] have lo: "2 ^ (bitLength n - 1) \<le> n" by simp
  have bp: "bitLength n > 0" using assms by (simp add: bitLength.simps [of n])
  have "pow2 (int (bitLength n) - 1) = 2 ^ (bitLength n - 1)"
    using bp by (simp add: pow2_def nat_diff_distrib')
  also have "\<dots> = of_int (2 ^ (bitLength n - 1))" by simp
  also have "\<dots> \<le> of_int n"
    using lo by (simp only: of_int_le_iff)
  finally show ?thesis
    by (simp add: floorLog2_def quotient_of_rat_of_int b1 Let_def)
qed

lemma pow2_pos: "pow2 k > 0"
  by (simp add: pow2_def)

lemma roundDouble_multiple:
  assumes "x \<noteq> 0" and "x / pow2 (max (floorLog2 \<bar>x\<bar>) (- 1022) - 52) = of_int j"
  shows "roundDouble x = x"
proof -
  let ?ulp = "pow2 (max (floorLog2 \<bar>x\<bar>) (- 1022) - 52)"
  have u: "?ulp \<noteq> 0" using pow2_pos [of "max (floorLog2 \<bar>x\<bar>) (- 1022) - 52"] by simp
  have "roundDouble x = of_int (roundHalfEven (x / ?ulp)) * ?ulp"
    using assms(1) by (simp add: roundDouble_def Let_def)
  also have "\<dots> = of_int j * ?ulp"
    unfolding assms(2) roundHalfEven_of_int ..
  also have "\<dots> = x"
    unfolding assms(2) [symmetric] using u by simp
  finally show ?thesis .
qed

lemma roundDouble_whole:
  assumes "x \<in> \<int>" and "\<bar>x\<bar> \<le> 2 ^ 53"
  shows "roundDouble x = x"
proof (cases "x = 0")
  case True
  then show ?thesis by (simp add: roundDouble_def)
next
  case False
  from assms(1) obtain m where m: "x = of_int m" by (rule Ints_cases)
  define n where "n = \<bar>m\<bar>"
  have npos: "n > 0" using False m by (simp add: n_def)
  have ax: "\<bar>x\<bar> = of_int n" by (simp add: m n_def)
  have e: "floorLog2 \<bar>x\<bar> = int (bitLength n) - 1"
    unfolding ax using npos by (rule floorLog2_of_int)
  have bp: "bitLength n > 0" using npos by (simp add: bitLength.simps [of n])
  from bitLength_bounds [OF npos] have lo: "2 ^ (bitLength n - 1) \<le> n" by simp
  have n53: "n \<le> 2 ^ 53"
  proof -
    have "rat_of_int n \<le> rat_of_int (2 ^ 53)" using assms(2) unfolding ax by simp
    then show ?thesis by (simp only: of_int_le_iff)
  qed
  have "(2::int) ^ (bitLength n - 1) \<le> 2 ^ 53" using lo n53 by (rule order_trans)
  then have b54: "bitLength n - 1 \<le> 53"
    by (rule power_le_imp_le_exp [rotated]) simp
  define k where "k = bitLength n - 1"
  have ek: "max (floorLog2 \<bar>x\<bar>) (- 1022) - 52 = int k - 52"
    unfolding e k_def using bp by simp
  show ?thesis
  proof (cases "k \<le> 52")
    case True
    then have p: "pow2 (int k - 52) = 1 / 2 ^ (52 - k)"
      by (cases "k = 52") (simp_all add: pow2_def nat_diff_distrib')
    have "x / pow2 (int k - 52) = of_int (m * 2 ^ (52 - k))"
      unfolding p by (simp add: m)
    then show ?thesis
      using False unfolding ek [symmetric] by (rule roundDouble_multiple [rotated])
  next
    case False
    with b54 have k53: "k = 53" unfolding k_def by simp
    define P :: int where "P = 2 ^ 52"
    have "(2::int) ^ 53 \<le> n" using lo unfolding k_def [symmetric] k53 .
    with n53 have "n = 2 ^ 53" by (rule antisym)
    also have "\<dots> = 2 * P" unfolding P_def by (simp only: power_Suc [symmetric]) simp
    finally have "\<bar>m\<bar> = 2 * P" unfolding n_def by simp
    then have "m = 2 * P \<or> m = - (2 * P)" by linarith
    moreover have "pow2 (int k - 52) = 2" unfolding k53 by (simp add: pow2_def)
    ultimately have "x / pow2 (int k - 52) = of_int P \<or> x / pow2 (int k - 52) = of_int (- P)"
      unfolding m by auto
    then obtain j where "x / pow2 (int k - 52) = of_int j" by blast
    then show ?thesis
      using \<open>x \<noteq> 0\<close> unfolding ek [symmetric] by (rule roundDouble_multiple [rotated])
  qed
qed

lemma plusNumber_whole:
  assumes "x \<in> \<int>" and "y \<in> \<int>" and "\<bar>x + y\<bar> \<le> 2 ^ 53"
  shows "plusNumber x y = x + y"
  unfolding plusNumber_def using assms by (intro roundDouble_whole Ints_add)

section \<open>The aggregator\<close>

lemma mapSet_keys_old: "k \<in> set (map fst m) \<Longrightarrow> map fst (mapSet k v m) = map fst m"
  by (induction m) (auto simp: rev_image_eqI)

lemma mapSet_keys_new: "k \<notin> set (map fst m) \<Longrightarrow> map fst (mapSet k v m) = map fst m @ [k]"
  by (induction m) auto

lemma mapSet_keys:
  "map fst (mapSet k v m) = (if k \<in> set (map fst m) then map fst m else map fst m @ [k])"
  by (simp add: mapSet_keys_old mapSet_keys_new)

lemma mapSet_map_of: "map_of (mapSet k v m) = (map_of m)(k \<mapsto> v)"
  by (induction m) (auto simp: fun_eq_iff)

lemma mapHas_iff: "mapHas k m \<longleftrightarrow> k \<in> set (map fst m)"
  by (simp add: mapHas_def map_of_eq_None_iff)

lemma addEntry_keys:
  "map fst (addEntry m e) =
     (if EntryData.number e \<in> set (map fst m) then map fst m else map fst m @ [EntryData.number e])"
proof (cases "EntryData.number e \<in> set (map fst m)")
  case True
  then obtain i where "map_of m (EntryData.number e) = Some i"
    by (metis mapHas_iff mapHas_def not_None_eq)
  with True show ?thesis
    by (simp add: addEntry_def Let_def mapHas_iff mapSet_keys)
next
  case False
  then show ?thesis
    by (simp add: addEntry_def Let_def mapHas_iff mapSet_keys mapSet_map_of)
qed

lemma addEntry_map_of:
  "map_of (addEntry m e) =
     (map_of m)(EntryData.number e \<mapsto>
        updateInfo (case map_of m (EntryData.number e) of None \<Rightarrow> emptyInfo | Some i \<Rightarrow> i) e)"
proof (cases "map_of m (EntryData.number e)")
  case None
  then show ?thesis
    by (simp add: addEntry_def Let_def mapHas_def mapSet_map_of)
next
  case (Some i)
  then show ?thesis
    by (simp add: addEntry_def Let_def mapHas_def mapSet_map_of)
qed

lemma foldl_addEntry_keys:
  "map fst (foldl addEntry m es) =
     map fst m @ rev (remdups (rev (filter (\<lambda>n. n \<notin> set (map fst m)) (map EntryData.number es))))"
proof (induction es rule: rev_induct)
  case Nil
  then show ?case by simp
next
  case (snoc e es)
  let ?extra = "rev (remdups (rev (filter (\<lambda>n. n \<notin> set (map fst m)) (map EntryData.number es))))"
  have set_extra: "set ?extra = {n \<in> EntryData.number ` set es. n \<notin> set (map fst m)}"
    by auto
  show ?case
    using snoc.IH set_extra by (auto simp: addEntry_keys)
qed

lemma foldl_addEntry_distinct:
  "distinct (map fst m) \<Longrightarrow> distinct (map fst (foldl addEntry m es))"
  unfolding foldl_addEntry_keys by auto

lemma foldl_addEntry_map_of:
  "map_of (foldl addEntry m es) k =
     (if k \<in> EntryData.number ` set es
      then Some (foldl updateInfo (case map_of m k of None \<Rightarrow> emptyInfo | Some i \<Rightarrow> i)
                   (filter (\<lambda>e. EntryData.number e = k) es))
      else map_of m k)"
proof (induction es rule: rev_induct)
  case Nil
  then show ?case by simp
next
  case (snoc e es)
  show ?case
  proof (cases "EntryData.number e = k")
    case True
    have "filter (\<lambda>e. EntryData.number e = k) es = []" if "k \<notin> EntryData.number ` set es"
      using that by (auto simp: filter_empty_conv)
    with True show ?thesis
      using snoc.IH by (auto simp: addEntry_map_of split: option.splits)
  next
    case False
    then show ?thesis
      using snoc.IH by (auto simp: addEntry_map_of)
  qed
qed

lemma alist_by_keys:
  assumes "distinct (map fst m)" "\<forall>k\<in>set (map fst m). map_of m k = Some (f k)"
  shows "m = map (\<lambda>k. (k, f k)) (map fst m)"
  using assms
proof (induction m)
  case Nil
  then show ?case by simp
next
  case (Cons p m)
  obtain k v where p: "p = (k, v)" by (cases p)
  have "\<forall>k'\<in>set (map fst m). map_of m k' = Some (f k')"
  proof
    fix k' assume k': "k' \<in> set (map fst m)"
    with Cons.prems(1) p have "k' \<noteq> k" by auto
    with Cons.prems(2) k' p show "map_of m k' = Some (f k')" by auto
  qed
  with Cons show ?case using p by auto
qed


lemma mapSet_fresh: "k \<notin> set (map fst m) \<Longrightarrow> mapSet k v m = m @ [(k, v)]"
  by (induction m) auto

lemma foldl_mapSet_fresh:
  "distinct (map fst m @ xs) \<Longrightarrow> foldl (\<lambda>m k. mapSet k v m) m xs = m @ map (\<lambda>k. (k, v)) xs"
proof (induction xs arbitrary: m)
  case Nil
  then show ?case by simp
next
  case (Cons x xs)
  then have "mapSet x v m = m @ [(x, v)]" by (intro mapSet_fresh) simp
  moreover have "distinct (map fst (m @ [(x, v)]) @ xs)" using Cons.prems by simp
  ultimately show ?case using Cons.IH [of "m @ [(x, v)]"] by simp
qed

lemma generateAllNumbers_distinct: "distinct (generateAllNumbers fetchType)"
proof (cases fetchType)
  case Jodi
  have "map decimalValue (generateAllNumbers Jodi) = [1..<100]"
    unfolding generateAllNumbers_Jodi by code_simp
  then have "distinct (map decimalValue (generateAllNumbers Jodi))"
    by (simp only: distinct_upt)
  then show ?thesis unfolding Jodi by (simp only: distinct_map)
next
  case Single
  show ?thesis unfolding Single generateAllNumbers_Single by simp
qed

lemma seedNumbers_eq:
  "seedNumbers fetchType = map (\<lambda>num. (num, emptyInfo)) (generateAllNumbers fetchType)"
  unfolding seedNumbers_def
  using foldl_mapSet_fresh [of "[]" "generateAllNumbers fetchType" emptyInfo]
  by (simp add: generateAllNumbers_distinct)

lemma updateInfo_total:
  "NumberInfo.total (updateInfo i e) = plusNumber (NumberInfo.total i) (EntryData.amount e)"
  by (simp add: updateInfo_def Let_def)

lemma foldl_updateInfo_plus:
  "NumberInfo.total (foldl updateInfo i xs) = foldl plusNumber (NumberInfo.total i) (map EntryData.amount xs)"
  by (induction xs arbitrary: i) (simp_all add: updateInfo_total)

lemma foldl_plusNumber_whole:
  assumes "t \<in> \<int>" and "\<forall>a \<in> set as. a \<in> \<int>" and "\<bar>t\<bar> + sum_list (map abs as) \<le> 2 ^ 53"
  shows "foldl plusNumber t as = t + sum_list as"
  using assms
proof (induction as arbitrary: t)
  case Nil
  then show ?case by simp
next
  case (Cons a as)
  have nonneg: "0 \<le> sum_list (map abs as)"
    by (rule sum_list_nonneg) auto
  from Cons.prems have a: "a \<in> \<int>" and rest: "\<forall>a \<in> set as. a \<in> \<int>"
    and bound: "\<bar>t\<bar> + \<bar>a\<bar> + sum_list (map abs as) \<le> 2 ^ 53"
    by simp_all
  have "\<bar>t + a\<bar> \<le> \<bar>t\<bar> + \<bar>a\<bar>" by (rule abs_triangle_ineq)
  with bound nonneg have small: "\<bar>t + a\<bar> \<le> 2 ^ 53"
    and bound': "\<bar>t + a\<bar> + sum_list (map abs as) \<le> 2 ^ 53"
    by linarith+
  have step: "plusNumber t a = t + a"
    using Cons.prems(1) a small by (rule plusNumber_whole)
  have "t + a \<in> \<int>" using Cons.prems(1) a by (rule Ints_add)
  from Cons.IH [OF this rest bound'] show ?case
    by (simp add: step add.assoc)
qed

lemma sum_abs_filter:
  "sum_list (map (\<lambda>e. \<bar>EntryData.amount e\<bar>) (filter P xs)) \<le> sum_list (map (\<lambda>e. \<bar>EntryData.amount e\<bar>) xs)"
proof (induction xs)
  case Nil
  then show ?case by simp
next
  case (Cons x xs)
  have "0 \<le> \<bar>EntryData.amount x\<bar>" by simp
  with Cons show ?case by (cases "P x") (simp_all add: add.commute add_increasing)
qed

lemma foldl_updateInfo_total:
  assumes "wholeAmounts snapshot"
  shows "NumberInfo.total (foldl updateInfo emptyInfo (filter P snapshot))
           = sum_list (map EntryData.amount (filter P snapshot))"
proof -
  let ?as = "map EntryData.amount (filter P snapshot)"
  have whole: "\<forall>a \<in> set ?as. a \<in> \<int>"
    using assms by (auto simp: wholeAmounts_def)
  have "sum_list (map abs ?as) = sum_list (map (\<lambda>e. \<bar>EntryData.amount e\<bar>) (filter P snapshot))"
    by (simp add: o_def)
  also have "\<dots> \<le> sum_list (map (\<lambda>e. \<bar>EntryData.amount e\<bar>) snapshot)"
    by (rule sum_abs_filter)
  also have "\<dots> \<le> 2 ^ 53"
    using assms by (simp add: wholeAmounts_def)
  finally have "\<bar>0::rat\<bar> + sum_list (map abs ?as) \<le> 2 ^ 53" by simp
  from foldl_plusNumber_whole [OF Ints_0 whole this] show ?thesis
    by (simp add: foldl_updateInfo_plus emptyInfo_def)
qed

lemma foldl_updateInfo_users:
  "set (NumberInfo.users (foldl updateInfo i xs)) = set (NumberInfo.users i) \<union> (\<lambda>e. orElse (userId e) (docId e)) ` set xs"
  by (induction xs arbitrary: i) (auto simp: updateInfo_def Let_def setAdd_def)

lemma foldl_updateInfo_distinct:
  "distinct (NumberInfo.users i) \<Longrightarrow> distinct (NumberInfo.users (foldl updateInfo i xs))"
  by (induction xs arbitrary: i) (auto simp: updateInfo_def Let_def setAdd_def)

lemma foldl_updateInfo_min:
  "NumberInfo.minAmount (foldl updateInfo i xs)
     = foldl mathMin (NumberInfo.minAmount i) (filter (\<lambda>a. a > 0) (map EntryData.amount xs))"
  by (induction xs arbitrary: i) (simp_all add: updateInfo_def Let_def)

lemma foldl_mathMin_Some: "foldl mathMin (Some b) ps = Some (Min (insert b (set ps)))"
proof (induction ps arbitrary: b)
  case Nil
  then show ?case by simp
next
  case (Cons p ps)
  have step: "mathMin (Some b) p = Some (min b p)"
    by (simp add: mathMin_def)
  have "Min (insert (min b p) (set ps)) = Min (insert b (insert p (set ps)))"
    by (cases "set ps = {}") (simp_all add: min.assoc)
  then show ?case
    unfolding foldl.simps step Cons.IH by simp
qed

lemma foldl_mathMin_None:
  "foldl mathMin None ps = (if ps = [] then None else Some (Min (set ps)))"
  by (cases ps) (simp_all add: mathMin_def foldl_mathMin_Some)

lemma toSummaryItem_fold_counts:
  "SummaryItem.number (toSummaryItem (num, foldl updateInfo emptyInfo (filter (\<lambda>e. EntryData.number e = num) snapshot)))
     = num \<and>
   SummaryItem.userCount (toSummaryItem (num, foldl updateInfo emptyInfo (filter (\<lambda>e. EntryData.number e = num) snapshot)))
     = SummaryItem.userCount (summaryOf snapshot num) \<and>
   SummaryItem.minAmount (toSummaryItem (num, foldl updateInfo emptyInfo (filter (\<lambda>e. EntryData.number e = num) snapshot)))
     = SummaryItem.minAmount (summaryOf snapshot num)"
proof -
  let ?mine = "filter (\<lambda>e. EntryData.number e = num) snapshot"
  let ?i = "foldl updateInfo emptyInfo ?mine"
  have "distinct (NumberInfo.users ?i)"
    by (intro foldl_updateInfo_distinct) (simp add: emptyInfo_def)
  moreover have "set (NumberInfo.users ?i) = set (map (\<lambda>e. orElse (userId e) (docId e)) ?mine)"
    by (simp add: foldl_updateInfo_users emptyInfo_def)
  ultimately have "length (NumberInfo.users ?i) = length (remdups (map (\<lambda>e. orElse (userId e) (docId e)) ?mine))"
    by (metis distinct_card length_remdups_card_conv)
  then show ?thesis
    by (simp add: toSummaryItem_def summaryOf_def Let_def
        foldl_updateInfo_min foldl_mathMin_None emptyInfo_def)
qed

lemma toSummaryItem_fold:
  assumes "wholeAmounts snapshot"
  shows "toSummaryItem (num, foldl updateInfo emptyInfo (filter (\<lambda>e. EntryData.number e = num) snapshot))
     = summaryOf snapshot num"
proof -
  let ?item = "toSummaryItem (num, foldl updateInfo emptyInfo (filter (\<lambda>e. EntryData.number e = num) snapshot))"
  have "SummaryItem.total ?item = SummaryItem.total (summaryOf snapshot num)"
    using foldl_updateInfo_total [OF assms, of "\<lambda>e. EntryData.number e = num"]
    by (simp add: toSummaryItem_def summaryOf_def Let_def)
  moreover have "SummaryItem.number (summaryOf snapshot num) = num"
    by (simp add: summaryOf_def Let_def)
  ultimately show ?thesis
    using toSummaryItem_fold_counts [of num snapshot] by (intro SummaryItem.equality) simp_all
qed

lemma aggregate_fold:
  "aggregate fetchType snapshot =
     map (\<lambda>k. toSummaryItem (k, foldl updateInfo emptyInfo (filter (\<lambda>e. EntryData.number e = k) snapshot)))
       (generateAllNumbers fetchType @
        rev (remdups (rev (filter (\<lambda>n. n \<notin> set (generateAllNumbers fetchType))
                             (map EntryData.number snapshot)))))"
proof -
  let ?m = "foldl addEntry (seedNumbers fetchType) snapshot"
  let ?f = "\<lambda>k. foldl updateInfo emptyInfo (filter (\<lambda>e. EntryData.number e = k) snapshot)"
  have seed_keys: "map fst (seedNumbers fetchType) = generateAllNumbers fetchType"
    by (simp add: seedNumbers_eq o_def)
  have seed_of: "(case map_of (seedNumbers fetchType) k of None \<Rightarrow> emptyInfo | Some i \<Rightarrow> i) = emptyInfo" for k
    unfolding seedNumbers_eq by (induction "generateAllNumbers fetchType") (auto split: option.splits simp: map_of_map_restrict restrict_map_def o_def)
  have keys: "map fst ?m = generateAllNumbers fetchType @
        rev (remdups (rev (filter (\<lambda>n. n \<notin> set (generateAllNumbers fetchType))
                             (map EntryData.number snapshot))))"
    unfolding foldl_addEntry_keys seed_keys ..
  have dist: "distinct (map fst ?m)"
    by (intro foldl_addEntry_distinct) (simp add: seed_keys generateAllNumbers_distinct)
  have "map_of ?m k = Some (?f k)" if "k \<in> set (map fst ?m)" for k
  proof (cases "k \<in> EntryData.number ` set snapshot")
    case True
    then show ?thesis by (simp add: foldl_addEntry_map_of seed_of)
  next
    case False
    then have "filter (\<lambda>e. EntryData.number e = k) snapshot = []"
      by (auto simp: filter_empty_conv)
    moreover from False that have "k \<in> set (generateAllNumbers fetchType)"
      unfolding keys by auto
    then have "map_of (seedNumbers fetchType) k = Some emptyInfo"
      unfolding seedNumbers_eq by (simp add: map_of_map_restrict)
    ultimately show ?thesis using False by (simp add: foldl_addEntry_map_of)
  qed
  then have "?m = map (\<lambda>k. (k, ?f k)) (map fst ?m)"
    using dist by (intro alist_by_keys) auto
  then have "map toSummaryItem ?m = map toSummaryItem (map (\<lambda>k. (k, ?f k)) (map fst ?m))"
    by (rule arg_cong)
  then have "aggregate fetchType snapshot = map (\<lambda>k. toSummaryItem (k, ?f k)) (map fst ?m)"
    unfolding aggregate_def by (simp only: map_map o_def)
  then show ?thesis
    unfolding keys .
qed

lemma aggregate_eq:
  assumes "wholeAmounts snapshot"
  shows "aggregate fetchType snapshot =
     map (summaryOf snapshot)
       (generateAllNumbers fetchType @
        rev (remdups (rev (filter (\<lambda>n. n \<notin> set (generateAllNumbers fetchType))
                             (map EntryData.number snapshot)))))"
  unfolding aggregate_fold toSummaryItem_fold [OF assms] ..

lemma aggregate_counts:
  "map (\<lambda>i. (SummaryItem.number i, SummaryItem.userCount i, SummaryItem.minAmount i))
       (aggregate fetchType snapshot) =
     map (\<lambda>k. (k, SummaryItem.userCount (summaryOf snapshot k), SummaryItem.minAmount (summaryOf snapshot k)))
       (generateAllNumbers fetchType @
        rev (remdups (rev (filter (\<lambda>n. n \<notin> set (generateAllNumbers fetchType))
                             (map EntryData.number snapshot)))))"
  unfolding aggregate_fold map_map o_def
  by (simp only: toSummaryItem_fold_counts)

lemma summaryOf_perm:
  assumes "mset snapshot = mset snapshot'"
  shows "summaryOf snapshot num = summaryOf snapshot' num"
proof -
  let ?mine = "filter (\<lambda>e. EntryData.number e = num) snapshot"
  let ?mine' = "filter (\<lambda>e. EntryData.number e = num) snapshot'"
  have m: "mset ?mine = mset ?mine'" using assms by simp
  then have s: "set ?mine = set ?mine'" by (rule mset_eq_setD)
  have "mset (map EntryData.amount ?mine) = mset (map EntryData.amount ?mine')"
    using m by (metis mset_map)
  then have total: "sum_list (map EntryData.amount ?mine) = sum_list (map EntryData.amount ?mine')"
    by (metis sum_mset_sum_list)
  have "set (map (\<lambda>e. orElse (userId e) (docId e)) ?mine)
      = set (map (\<lambda>e. orElse (userId e) (docId e)) ?mine')"
    using s by (simp only: set_map)
  then have count: "length (remdups (map (\<lambda>e. orElse (userId e) (docId e)) ?mine))
      = length (remdups (map (\<lambda>e. orElse (userId e) (docId e)) ?mine'))"
    by (simp only: length_remdups_card_conv)
  have pos: "set (filter (\<lambda>a. a > 0) (map EntryData.amount ?mine))
      = set (filter (\<lambda>a. a > 0) (map EntryData.amount ?mine'))"
    using s by (simp only: set_filter set_map)
  then have empty: "filter (\<lambda>a. a > 0) (map EntryData.amount ?mine) = []
      \<longleftrightarrow> filter (\<lambda>a. a > 0) (map EntryData.amount ?mine') = []"
    by (metis set_empty)
  show ?thesis
    unfolding summaryOf_def Let_def total count pos using empty by simp
qed

lemma extras_perm:
  assumes "mset snapshot = mset snapshot'"
  shows "mset (rev (remdups (rev (filter P (map EntryData.number snapshot)))))
       = mset (rev (remdups (rev (filter P (map EntryData.number snapshot')))))"
proof -
  have "set (rev (filter P (map EntryData.number snapshot)))
      = set (rev (filter P (map EntryData.number snapshot')))"
    using mset_eq_setD [OF assms] by simp
  then show ?thesis
    by (simp only: mset_rev set_eq_iff_mset_remdups_eq)
qed

lemma wholeAmounts_perm:
  assumes "mset snapshot = mset snapshot'"
  shows "wholeAmounts snapshot \<longleftrightarrow> wholeAmounts snapshot'"
proof -
  have "set snapshot = set snapshot'" using assms by (rule mset_eq_setD)
  moreover have "mset (map (\<lambda>e. \<bar>EntryData.amount e\<bar>) snapshot) = mset (map (\<lambda>e. \<bar>EntryData.amount e\<bar>) snapshot')"
    using assms by (metis mset_map)
  then have "sum_list (map (\<lambda>e. \<bar>EntryData.amount e\<bar>) snapshot) = sum_list (map (\<lambda>e. \<bar>EntryData.amount e\<bar>) snapshot')"
    by (metis sum_mset_sum_list)
  ultimately show ?thesis by (simp add: wholeAmounts_def)
qed

lemma aggregate_perm:
  assumes "mset snapshot = mset snapshot'" and "wholeAmounts snapshot"
  shows "mset (aggregate fetchType snapshot) = mset (aggregate fetchType snapshot')"
proof -
  have f: "summaryOf snapshot = summaryOf snapshot'"
    using summaryOf_perm [OF assms(1)] by (intro ext)
  have w: "wholeAmounts snapshot'"
    using assms(2) wholeAmounts_perm [OF assms(1)] by simp
  show ?thesis
    unfolding aggregate_eq [OF assms(2)] aggregate_eq [OF w] f mset_map mset_append
    using extras_perm [OF assms(1)] by simp
qed

lemma aggregate_counts_perm:
  assumes "mset snapshot = mset snapshot'"
  shows "mset (map (\<lambda>i. (SummaryItem.number i, SummaryItem.userCount i, SummaryItem.minAmount i))
                (aggregate fetchType snapshot))
       = mset (map (\<lambda>i. (SummaryItem.number i, SummaryItem.userCount i, SummaryItem.minAmount i))
                (aggregate fetchType snapshot'))"
proof -
  have f: "summaryOf snapshot = summaryOf snapshot'"
    using summaryOf_perm [OF assms] by (intro ext)
  show ?thesis
    unfolding aggregate_counts f mset_map mset_append
    using extras_perm [OF assms] by simp
qed

lemma aggregate_numbers:
  "map SummaryItem.number (aggregate fetchType snapshot) =
     generateAllNumbers fetchType @
     rev (remdups (rev (filter (\<lambda>n. n \<notin> set (generateAllNumbers fetchType))
                          (map EntryData.number snapshot))))"
  unfolding aggregate_fold map_map o_def
  by (simp only: toSummaryItem_fold_counts) simp

lemma aggregate_legal:
  assumes "EntryData.number ` set snapshot \<subseteq> set (generateAllNumbers fetchType)"
    and "wholeAmounts snapshot"
  shows "aggregate fetchType snapshot = map (summaryOf snapshot) (generateAllNumbers fetchType)"
proof -
  have "filter (\<lambda>n. n \<notin> set (generateAllNumbers fetchType)) (map EntryData.number snapshot) = []"
    using assms(1) by (auto simp: filter_empty_conv)
  then show ?thesis unfolding aggregate_eq [OF assms(2)] by simp
qed

lemma filter_eq_distinct:
  "distinct xs \<Longrightarrow> filter (\<lambda>k. k = x) xs = (if x \<in> set xs then [x] else [])"
  by (induction xs) (auto simp: filter_empty_conv)

lemma aggregate_total:
  "map SummaryItem.total (filter (\<lambda>i. SummaryItem.number i = num) (aggregate fetchType snapshot))
     = (if num \<in> set (generateAllNumbers fetchType) \<union> EntryData.number ` set snapshot
        then [foldl plusNumber 0 (map EntryData.amount (filter (\<lambda>e. EntryData.number e = num) snapshot))]
        else [])"
proof -
  let ?keys = "generateAllNumbers fetchType @
        rev (remdups (rev (filter (\<lambda>n. n \<notin> set (generateAllNumbers fetchType))
                             (map EntryData.number snapshot))))"
  let ?f = "\<lambda>k. toSummaryItem (k, foldl updateInfo emptyInfo (filter (\<lambda>e. EntryData.number e = k) snapshot))"
  have num: "SummaryItem.number (?f k) = k" for k
    using toSummaryItem_fold_counts [of k snapshot] by simp
  have "distinct ?keys"
    using generateAllNumbers_distinct [of fetchType] by auto
  then have one: "filter (\<lambda>k. k = num) ?keys = (if num \<in> set ?keys then [num] else [])"
    by (rule filter_eq_distinct)
  have "filter (\<lambda>i. SummaryItem.number i = num) (map ?f ?keys) = map ?f (filter (\<lambda>k. k = num) ?keys)"
    by (simp add: filter_map o_def num)
  then have "map SummaryItem.total (filter (\<lambda>i. SummaryItem.number i = num) (aggregate fetchType snapshot))
      = map (\<lambda>k. SummaryItem.total (?f k)) (filter (\<lambda>k. k = num) ?keys)"
    unfolding aggregate_fold by (simp add: o_def)
  also have "\<dots> = (if num \<in> set ?keys
        then [foldl plusNumber 0 (map EntryData.amount (filter (\<lambda>e. EntryData.number e = num) snapshot))]
        else [])"
    unfolding one by (simp add: toSummaryItem_def foldl_updateInfo_plus emptyInfo_def)
  also have "num \<in> set ?keys \<longleftrightarrow> num \<in> set (generateAllNumbers fetchType) \<union> EntryData.number ` set snapshot"
    by auto
  finally show ?thesis .
qed

text \<open>
  Claim C2 does not hold for every collection of entries: an entry whose number is outside
  the legal domain, here \<open>00\<close>, adds its number to the output.
\<close>

theorem aggregate_domain_counterexample:
  "set (map SummaryItem.number
      (fetchSummary
         [\<lparr>docId = ''d1'', EntryData.number = ''00'', EntryData.amount = 5, userId = None,
           createdAt = 1705300620000, date = ''2024-01-15'', type = Jodi,
           pending = Some False, processedAt = None\<rparr>] ''2024-01-15'' Jodi))
   \<noteq> set (generateAllNumbers Jodi)"
proof -
  have "''00'' \<in> set (map SummaryItem.number
      (fetchSummary
         [\<lparr>docId = ''d1'', EntryData.number = ''00'', EntryData.amount = 5, userId = None,
           createdAt = 1705300620000, date = ''2024-01-15'', type = Jodi,
           pending = Some False, processedAt = None\<rparr>] ''2024-01-15'' Jodi))"
    by (simp add: fetchSummary_def aggregate_numbers)
  moreover have "''00'' \<notin> set (generateAllNumbers Jodi)"
    unfolding generateAllNumbers_Jodi by simp
  ultimately show ?thesis by blast
qed

lemma fetchTimeSlotData_slot:
  assumes "slot \<in> set (fetchTimeSlotData tz parsed docs fetchDate fetchType)"
  shows "TimeSlot.entries slot = aggregate fetchType
           (filter (\<lambda>entry. createdAt entry \<ge> startTime slot \<and> createdAt entry < endTime slot)
              (sort_key createdAt
                 (filter (\<lambda>d. date d = fetchDate \<and> type d = fetchType \<and> pending d = Some False) docs)))"
  using assms
  by (auto simp: fetchTimeSlotData_def Let_def split: option.splits if_splits)

text \<open>
  Claim C2, amended. For every variant and every collection of entries, the numbers of the
  aggregator's output are the legal numbers of the variant together with the numbers of
  the entries: no legal number is missing, also with no entry at all, and a number outside
  the legal domain appears exactly when an entry carries it. When every entry carries a
  legal number the set is the legal domain. This holds for the summary of a day
  (\<open>fetchSummary\<close>) and for each slot that \<open>fetchTimeSlotData\<close> returns, with the settled
  entries of the query, or of the slot, as the collection.
\<close>

theorem aggregate_number_set:
  "set (map SummaryItem.number (aggregate fetchType snapshot))
     = set (generateAllNumbers fetchType) \<union> EntryData.number ` set snapshot \<and>
   (EntryData.number ` set snapshot \<subseteq> set (generateAllNumbers fetchType) \<longrightarrow>
      set (map SummaryItem.number (aggregate fetchType snapshot)) = set (generateAllNumbers fetchType)) \<and>
   set (map SummaryItem.number (aggregate fetchType [])) = set (generateAllNumbers fetchType) \<and>
   set (map SummaryItem.number (fetchSummary docs fetchDate fetchType))
     = set (generateAllNumbers fetchType) \<union>
       EntryData.number ` {d \<in> set docs. date d = fetchDate \<and> type d = fetchType \<and> pending d = Some False} \<and>
   (\<forall>slot \<in> set (fetchTimeSlotData tz parsed docs fetchDate fetchType).
      set (map SummaryItem.number (TimeSlot.entries slot))
        = set (generateAllNumbers fetchType) \<union>
          EntryData.number ` {d \<in> set docs. date d = fetchDate \<and> type d = fetchType \<and> pending d = Some False \<and>
                                  startTime slot \<le> createdAt d \<and> createdAt d < endTime slot})"
proof -
  have c1: "set (map SummaryItem.number (aggregate fetchType snapshot))
     = set (generateAllNumbers fetchType) \<union> EntryData.number ` set snapshot" for snapshot
    unfolding aggregate_numbers by auto
  have c4: "set (map SummaryItem.number (fetchSummary docs fetchDate fetchType))
     = set (generateAllNumbers fetchType) \<union>
       EntryData.number ` {d \<in> set docs. date d = fetchDate \<and> type d = fetchType \<and> pending d = Some False}"
    unfolding fetchSummary_def c1 by simp
  have c5: "set (map SummaryItem.number (TimeSlot.entries slot))
        = set (generateAllNumbers fetchType) \<union>
          EntryData.number ` {d \<in> set docs. date d = fetchDate \<and> type d = fetchType \<and> pending d = Some False \<and>
                                  startTime slot \<le> createdAt d \<and> createdAt d < endTime slot}"
    if "slot \<in> set (fetchTimeSlotData tz parsed docs fetchDate fetchType)" for slot
  proof -
    have "{d \<in> set docs. date d = fetchDate \<and> type d = fetchType \<and> pending d = Some False \<and>
              startTime slot \<le> createdAt d \<and> createdAt d < endTime slot}
        = set (filter (\<lambda>entry. createdAt entry \<ge> startTime slot \<and> createdAt entry < endTime slot)
              (sort_key createdAt
                 (filter (\<lambda>d. date d = fetchDate \<and> type d = fetchType \<and> pending d = Some False) docs)))"
      by auto
    then show ?thesis
      unfolding fetchTimeSlotData_slot [OF that] c1 by simp
  qed
  show ?thesis
    using c1 c4 c5 by auto
qed


lemma in_concat_map: "s \<in> set xs \<Longrightarrow> x \<in> set (F s) \<Longrightarrow> x \<in> set (concat (map F xs))"
  by auto

theorem aggregate_number_set_witness:
  "EntryData.number ` set [sampleBet ''d1'' ''07'' 5 1705300620000 False] \<subseteq> set (generateAllNumbers Jodi) \<and>
   set (map SummaryItem.number (aggregate Jodi [sampleBet ''d1'' ''07'' 5 1705300620000 False]))
     = set (generateAllNumbers Jodi) \<and>
   \<lparr>startTime = 1705300200000, endTime = 1705301100000,
     entries = aggregate Jodi [sampleBet ''d1'' ''07'' 5 1705300620000 False]\<rparr>
     \<in> set (fetchTimeSlotData 330 (Some 1705276800000) [sampleBet ''d1'' ''07'' 5 1705300620000 False]
              ''2024-01-15'' Jodi) \<and>
   set (map SummaryItem.number (aggregate Jodi [sampleBet ''d1'' ''07'' 5 1705300620000 False]))
     = set (generateAllNumbers Jodi) \<union>
       EntryData.number ` {d \<in> set [sampleBet ''d1'' ''07'' 5 1705300620000 False].
          date d = ''2024-01-15'' \<and> type d = Jodi \<and> pending d = Some False \<and>
          1705300200000 \<le> createdAt d \<and> createdAt d < 1705301100000}"
proof -
  let ?e = "sampleBet ''d1'' ''07'' 5 1705300620000 False"
  let ?slot = "\<lparr>startTime = 1705300200000, endTime = 1705301100000, entries = aggregate Jodi [?e]\<rparr>"
  note th = aggregate_number_set [where fetchType = Jodi and snapshot = "[?e]" and docs = "[?e]"
      and fetchDate = "''2024-01-15''" and tz = 330 and parsed = "Some 1705276800000"]
  have h1: "EntryData.number ` set [?e] \<subseteq> set (generateAllNumbers Jodi)"
    unfolding generateAllNumbers_Jodi by (simp add: sampleBet_def)
  have h2: "?slot \<in> set (fetchTimeSlotData 330 (Some 1705276800000) [?e] ''2024-01-15'' Jodi)"
  proof -
    have base: "setHours 330 0 0 0 0 1705276800000 = 1705257000000"
      by (simp add: setHours_eq LocalTime_def MakeTime_def)
    have "\<lparr>start = 1705257000000 + int 48 * 900000, end' = 1705257000000 + int 48 * 900000 + 900000\<rparr>
        \<in> (\<lambda>k. \<lparr>start = 1705257000000 + int k * 900000, end' = 1705257000000 + int k * 900000 + 900000\<rparr>)
            ` set [0..<96]"
      by (intro imageI) (simp del: upt_rec_numeral)
    then have "\<lparr>start = 1705300200000, end' = 1705301100000\<rparr> \<in> set (getTimeSlotBoundaries 330 1705276800000)"
      unfolding getTimeSlotBoundaries_closed base set_rev set_map by simp
    then show ?thesis
      unfolding fetchTimeSlotData_def Let_def option.case
      by (rule in_concat_map) (simp add: sampleBet_def)
  qed
  from th have "EntryData.number ` set [?e] \<subseteq> set (generateAllNumbers Jodi) \<longrightarrow>
      set (map SummaryItem.number (aggregate Jodi [?e])) = set (generateAllNumbers Jodi)"
    by (elim conjE) assumption
  with h1 have c1: "set (map SummaryItem.number (aggregate Jodi [?e])) = set (generateAllNumbers Jodi)"
    by (rule rev_mp)
  from th have "\<forall>slot \<in> set (fetchTimeSlotData 330 (Some 1705276800000) [?e] ''2024-01-15'' Jodi).
      set (map SummaryItem.number (TimeSlot.entries slot))
        = set (generateAllNumbers Jodi) \<union>
          EntryData.number ` {d \<in> set [?e]. date d = ''2024-01-15'' \<and> type d = Jodi \<and> pending d = Some False \<and>
                                  startTime slot \<le> createdAt d \<and> createdAt d < endTime slot}"
    by (elim conjE) assumption
  from bspec [OF this h2] have c2: "set (map SummaryItem.number (aggregate Jodi [?e]))
     = set (generateAllNumbers Jodi) \<union>
       EntryData.number ` {d \<in> set [?e].
          date d = ''2024-01-15'' \<and> type d = Jodi \<and> pending d = Some False \<and>
          1705300200000 \<le> createdAt d \<and> createdAt d < 1705301100000}"
    by (simp only: TimeSlot.simps)
  show ?thesis
    by (intro conjI h1 h2 c1 c2)
qed

text \<open>
  Claim C9 does not hold as stated. With two entries whose numbers are outside the legal
  domain, the output sequence is not the legal-domain sequence, and it changes with the
  order of the entries. With three entries for the number \<open>07\<close> whose amounts are the
  doubles \<open>0.1\<close>, \<open>0.2\<close> and \<open>0.3\<close>, the total is \<open>0.6000000000000001\<close> when they
  arrive in this order and \<open>0.6\<close> when they arrive in the opposite order, so that the
  multiset of the output changes with the order.
\<close>

theorem aggregate_sequence_counterexample:
  "map SummaryItem.number (aggregate Jodi
       [sampleBet ''d1'' ''00'' 5 1705300620000 False, sampleBet ''d2'' ''0'' 7 1705300620000 False])
     \<noteq> generateAllNumbers Jodi \<and>
   map SummaryItem.number (aggregate Jodi
       [sampleBet ''d1'' ''00'' 5 1705300620000 False, sampleBet ''d2'' ''0'' 7 1705300620000 False])
     \<noteq> map SummaryItem.number (aggregate Jodi
       [sampleBet ''d2'' ''0'' 7 1705300620000 False, sampleBet ''d1'' ''00'' 5 1705300620000 False]) \<and>
   mset [sampleBet ''d1'' ''07'' (3602879701896397 / 36028797018963968) 1705300620000 False,
         sampleBet ''d2'' ''07'' (3602879701896397 / 18014398509481984) 1705300620000 False,
         sampleBet ''d3'' ''07'' (5404319552844595 / 18014398509481984) 1705300620000 False]
     = mset [sampleBet ''d3'' ''07'' (5404319552844595 / 18014398509481984) 1705300620000 False,
             sampleBet ''d2'' ''07'' (3602879701896397 / 18014398509481984) 1705300620000 False,
             sampleBet ''d1'' ''07'' (3602879701896397 / 36028797018963968) 1705300620000 False] \<and>
   map SummaryItem.total (filter (\<lambda>i. SummaryItem.number i = ''07'') (aggregate Jodi
       [sampleBet ''d1'' ''07'' (3602879701896397 / 36028797018963968) 1705300620000 False,
        sampleBet ''d2'' ''07'' (3602879701896397 / 18014398509481984) 1705300620000 False,
        sampleBet ''d3'' ''07'' (5404319552844595 / 18014398509481984) 1705300620000 False]))
     = [1351079888211149 / 2251799813685248] \<and>
   map SummaryItem.total (filter (\<lambda>i. SummaryItem.number i = ''07'') (aggregate Jodi
       [sampleBet ''d3'' ''07'' (5404319552844595 / 18014398509481984) 1705300620000 False,
        sampleBet ''d2'' ''07'' (3602879701896397 / 18014398509481984) 1705300620000 False,
        sampleBet ''d1'' ''07'' (3602879701896397 / 36028797018963968) 1705300620000 False]))
     = [5404319552844595 / 9007199254740992] \<and>
   mset (aggregate Jodi
       [sampleBet ''d1'' ''07'' (3602879701896397 / 36028797018963968) 1705300620000 False,
        sampleBet ''d2'' ''07'' (3602879701896397 / 18014398509481984) 1705300620000 False,
        sampleBet ''d3'' ''07'' (5404319552844595 / 18014398509481984) 1705300620000 False])
     \<noteq> mset (aggregate Jodi
       [sampleBet ''d3'' ''07'' (5404319552844595 / 18014398509481984) 1705300620000 False,
        sampleBet ''d2'' ''07'' (3602879701896397 / 18014398509481984) 1705300620000 False,
        sampleBet ''d1'' ''07'' (3602879701896397 / 36028797018963968) 1705300620000 False])"
proof -
  let ?a = "sampleBet ''d1'' ''07'' (3602879701896397 / 36028797018963968) 1705300620000 False"
  let ?b = "sampleBet ''d2'' ''07'' (3602879701896397 / 18014398509481984) 1705300620000 False"
  let ?c = "sampleBet ''d3'' ''07'' (5404319552844595 / 18014398509481984) 1705300620000 False"
  have out: "''00'' \<notin> set (generateAllNumbers Jodi)" "''0'' \<notin> set (generateAllNumbers Jodi)"
    unfolding generateAllNumbers_Jodi by simp_all
  have 1: "map SummaryItem.number (aggregate Jodi
       [sampleBet ''d1'' ''00'' 5 1705300620000 False, sampleBet ''d2'' ''0'' 7 1705300620000 False])
     = generateAllNumbers Jodi @ [''00'', ''0'']"
    unfolding aggregate_numbers using out by (simp add: sampleBet_def)
  have 2: "map SummaryItem.number (aggregate Jodi
       [sampleBet ''d2'' ''0'' 7 1705300620000 False, sampleBet ''d1'' ''00'' 5 1705300620000 False])
     = generateAllNumbers Jodi @ [''0'', ''00'']"
    unfolding aggregate_numbers using out by (simp add: sampleBet_def)
  have c12: "map SummaryItem.number (aggregate Jodi
       [sampleBet ''d1'' ''00'' 5 1705300620000 False, sampleBet ''d2'' ''0'' 7 1705300620000 False])
     \<noteq> generateAllNumbers Jodi \<and>
   map SummaryItem.number (aggregate Jodi
       [sampleBet ''d1'' ''00'' 5 1705300620000 False, sampleBet ''d2'' ''0'' 7 1705300620000 False])
     \<noteq> map SummaryItem.number (aggregate Jodi
       [sampleBet ''d2'' ''0'' 7 1705300620000 False, sampleBet ''d1'' ''00'' 5 1705300620000 False])"
    unfolding 1 2 by simp
  have c3: "mset [?a, ?b, ?c] = mset [?c, ?b, ?a]"
    by (simp add: add_mset_commute)
  have up: "plusNumber (plusNumber (plusNumber 0 (3602879701896397 / 36028797018963968))
                 (3602879701896397 / 18014398509481984)) (5404319552844595 / 18014398509481984)
      = 1351079888211149 / 2251799813685248"
    by code_simp
  have down: "plusNumber (plusNumber (plusNumber 0 (5404319552844595 / 18014398509481984))
                 (3602879701896397 / 18014398509481984)) (3602879701896397 / 36028797018963968)
      = 5404319552844595 / 9007199254740992"
    by code_simp
  have legal: "''07'' \<in> set (generateAllNumbers Jodi)"
    unfolding generateAllNumbers_Jodi by simp
  have c4: "map SummaryItem.total (filter (\<lambda>i. SummaryItem.number i = ''07'') (aggregate Jodi [?a, ?b, ?c]))
      = [1351079888211149 / 2251799813685248]"
    unfolding aggregate_total using legal by (simp add: sampleBet_def up)
  have c5: "map SummaryItem.total (filter (\<lambda>i. SummaryItem.number i = ''07'') (aggregate Jodi [?c, ?b, ?a]))
      = [5404319552844595 / 9007199254740992]"
    unfolding aggregate_total using legal by (simp add: sampleBet_def down)
  have c6: "mset (aggregate Jodi [?a, ?b, ?c]) \<noteq> mset (aggregate Jodi [?c, ?b, ?a])"
  proof
    assume "mset (aggregate Jodi [?a, ?b, ?c]) = mset (aggregate Jodi [?c, ?b, ?a])"
    then have "mset (map SummaryItem.total (filter (\<lambda>i. SummaryItem.number i = ''07'') (aggregate Jodi [?a, ?b, ?c])))
        = mset (map SummaryItem.total (filter (\<lambda>i. SummaryItem.number i = ''07'') (aggregate Jodi [?c, ?b, ?a])))"
      by (simp only: mset_map mset_filter)
    then show False unfolding c4 c5 by simp
  qed
  show ?thesis
    using c12 by (intro conjI c3 c4 c5 c6) (elim conjE, assumption)+
qed

text \<open>
  Claim C9, amended. Permuting the entries never changes the numbers of the output, nor
  for any number its count of distinct users and its least positive amount. The total of
  a number is the sum of its amounts, added as doubles in the order of arrival. When the
  amounts are whole numbers whose magnitudes sum to \<open>2^53\<close> at most, every total is the
  exact sum, each item is the summary of its number, and permuting the entries does not
  change the multiset of the output. The output sequence is the legal domain in its seeded
  order, followed by the numbers outside the legal domain in the order of their first
  entry; when every entry carries a legal number, the sequence is the seeded legal domain,
  and with such whole amounts the whole output list is the same for every order of the
  entries.
\<close>

theorem aggregate_order_independent:
  "(mset snapshot = mset snapshot' \<longrightarrow>
      mset (map (\<lambda>i. (SummaryItem.number i, SummaryItem.userCount i, SummaryItem.minAmount i))
              (aggregate fetchType snapshot))
        = mset (map (\<lambda>i. (SummaryItem.number i, SummaryItem.userCount i, SummaryItem.minAmount i))
              (aggregate fetchType snapshot')) \<and>
      summaryOf snapshot = summaryOf snapshot') \<and>
   map (\<lambda>i. (SummaryItem.number i, SummaryItem.userCount i, SummaryItem.minAmount i))
       (aggregate fetchType snapshot)
     = map (\<lambda>k. (k, SummaryItem.userCount (summaryOf snapshot k), SummaryItem.minAmount (summaryOf snapshot k)))
         (map SummaryItem.number (aggregate fetchType snapshot)) \<and>
   (mset snapshot = mset snapshot' \<and> wholeAmounts snapshot \<longrightarrow>
      mset (aggregate fetchType snapshot) = mset (aggregate fetchType snapshot')) \<and>
   (wholeAmounts snapshot \<longrightarrow>
      aggregate fetchType snapshot
        = map (summaryOf snapshot) (map SummaryItem.number (aggregate fetchType snapshot))) \<and>
   map SummaryItem.number (aggregate fetchType snapshot)
     = generateAllNumbers fetchType @
       rev (remdups (rev (filter (\<lambda>n. n \<notin> set (generateAllNumbers fetchType))
                            (map EntryData.number snapshot)))) \<and>
   (EntryData.number ` set snapshot \<subseteq> set (generateAllNumbers fetchType) \<longrightarrow>
      map SummaryItem.number (aggregate fetchType snapshot) = generateAllNumbers fetchType) \<and>
   (mset snapshot = mset snapshot' \<and> wholeAmounts snapshot \<and>
    EntryData.number ` set snapshot \<subseteq> set (generateAllNumbers fetchType) \<longrightarrow>
      aggregate fetchType snapshot = aggregate fetchType snapshot')"
proof -
  have c1: "mset snapshot = mset snapshot' \<longrightarrow>
      mset (map (\<lambda>i. (SummaryItem.number i, SummaryItem.userCount i, SummaryItem.minAmount i))
              (aggregate fetchType snapshot))
        = mset (map (\<lambda>i. (SummaryItem.number i, SummaryItem.userCount i, SummaryItem.minAmount i))
              (aggregate fetchType snapshot')) \<and>
      summaryOf snapshot = summaryOf snapshot'"
    using aggregate_counts_perm summaryOf_perm by blast
  have c2: "map (\<lambda>i. (SummaryItem.number i, SummaryItem.userCount i, SummaryItem.minAmount i))
       (aggregate fetchType snapshot)
     = map (\<lambda>k. (k, SummaryItem.userCount (summaryOf snapshot k), SummaryItem.minAmount (summaryOf snapshot k)))
         (map SummaryItem.number (aggregate fetchType snapshot))"
    unfolding aggregate_numbers by (rule aggregate_counts)
  have c3: "mset snapshot = mset snapshot' \<and> wholeAmounts snapshot \<longrightarrow>
      mset (aggregate fetchType snapshot) = mset (aggregate fetchType snapshot')"
    using aggregate_perm by blast
  have c4: "wholeAmounts snapshot \<longrightarrow>
      aggregate fetchType snapshot
        = map (summaryOf snapshot) (map SummaryItem.number (aggregate fetchType snapshot))"
    unfolding aggregate_numbers using aggregate_eq by blast
  have c5: "map SummaryItem.number (aggregate fetchType snapshot)
     = generateAllNumbers fetchType @
       rev (remdups (rev (filter (\<lambda>n. n \<notin> set (generateAllNumbers fetchType))
                            (map EntryData.number snapshot))))"
    by (rule aggregate_numbers)
  have c6: "map SummaryItem.number (aggregate fetchType snapshot) = generateAllNumbers fetchType"
    if l: "EntryData.number ` set snapshot \<subseteq> set (generateAllNumbers fetchType)"
  proof -
    have "filter (\<lambda>n. n \<notin> set (generateAllNumbers fetchType)) (map EntryData.number snapshot) = []"
      using l by (auto simp: filter_empty_conv)
    then show ?thesis unfolding aggregate_numbers by simp
  qed
  have c7: "aggregate fetchType snapshot = aggregate fetchType snapshot'"
    if p: "mset snapshot = mset snapshot'" and w: "wholeAmounts snapshot"
      and l: "EntryData.number ` set snapshot \<subseteq> set (generateAllNumbers fetchType)"
  proof -
    have "set snapshot' = set snapshot" using p by (metis mset_eq_setD)
    with l have l': "EntryData.number ` set snapshot' \<subseteq> set (generateAllNumbers fetchType)"
      by simp
    have w': "wholeAmounts snapshot'"
      using w wholeAmounts_perm [OF p] by simp
    have "summaryOf snapshot = summaryOf snapshot'"
      using summaryOf_perm [OF p] by (intro ext)
    then show ?thesis
      unfolding aggregate_legal [OF l w] aggregate_legal [OF l' w'] by simp
  qed
  show ?thesis
    using c1 c2 c3 c4 c5 c6 c7 by (intro conjI impI) (elim conjE | assumption | blast)+
qed

theorem aggregate_order_independent_witness:
  "mset [sampleBet ''d1'' ''07'' 5 1705300620000 False, sampleBet ''d2'' ''12'' 7 1705300620000 False]
     = mset [sampleBet ''d2'' ''12'' 7 1705300620000 False, sampleBet ''d1'' ''07'' 5 1705300620000 False] \<and>
   wholeAmounts [sampleBet ''d1'' ''07'' 5 1705300620000 False, sampleBet ''d2'' ''12'' 7 1705300620000 False] \<and>
   EntryData.number ` set [sampleBet ''d1'' ''07'' 5 1705300620000 False, sampleBet ''d2'' ''12'' 7 1705300620000 False]
     \<subseteq> set (generateAllNumbers Jodi) \<and>
   mset (aggregate Jodi [sampleBet ''d1'' ''07'' 5 1705300620000 False, sampleBet ''d2'' ''12'' 7 1705300620000 False])
     = mset (aggregate Jodi [sampleBet ''d2'' ''12'' 7 1705300620000 False, sampleBet ''d1'' ''07'' 5 1705300620000 False]) \<and>
   aggregate Jodi [sampleBet ''d1'' ''07'' 5 1705300620000 False, sampleBet ''d2'' ''12'' 7 1705300620000 False]
     = aggregate Jodi [sampleBet ''d2'' ''12'' 7 1705300620000 False, sampleBet ''d1'' ''07'' 5 1705300620000 False] \<and>
   map SummaryItem.number
       (aggregate Jodi [sampleBet ''d1'' ''07'' 5 1705300620000 False, sampleBet ''d2'' ''12'' 7 1705300620000 False])
     = generateAllNumbers Jodi"
proof -
  let ?a = "sampleBet ''d1'' ''07'' 5 1705300620000 False"
  let ?b = "sampleBet ''d2'' ''12'' 7 1705300620000 False"
  note th = aggregate_order_independent [where fetchType = Jodi and snapshot = "[?a, ?b]"
      and snapshot' = "[?b, ?a]"]
  have h1: "mset [?a, ?b] = mset [?b, ?a]"
    by (simp add: add_mset_commute)
  have h2: "EntryData.number ` set [?a, ?b] \<subseteq> set (generateAllNumbers Jodi)"
    unfolding generateAllNumbers_Jodi by (simp add: sampleBet_def)
  have h3: "wholeAmounts [?a, ?b]"
    by (simp add: wholeAmounts_def sampleBet_def)
  from th have "mset [?a, ?b] = mset [?b, ?a] \<and> wholeAmounts [?a, ?b] \<longrightarrow>
      mset (aggregate Jodi [?a, ?b]) = mset (aggregate Jodi [?b, ?a])"
    by (elim conjE) assumption
  with h1 h3 have c1: "mset (aggregate Jodi [?a, ?b]) = mset (aggregate Jodi [?b, ?a])"
    by (elim impE) (intro conjI, assumption+)
  from th have "mset [?a, ?b] = mset [?b, ?a] \<and> wholeAmounts [?a, ?b] \<and>
      EntryData.number ` set [?a, ?b] \<subseteq> set (generateAllNumbers Jodi) \<longrightarrow>
      aggregate Jodi [?a, ?b] = aggregate Jodi [?b, ?a]"
    by (elim conjE) assumption
  with h1 h2 h3 have c2: "aggregate Jodi [?a, ?b] = aggregate Jodi [?b, ?a]"
    by (elim impE) (intro conjI, assumption+)
  from th have "EntryData.number ` set [?a, ?b] \<subseteq> set (generateAllNumbers Jodi) \<longrightarrow>
      map SummaryItem.number (aggregate Jodi [?a, ?b]) = generateAllNumbers Jodi"
    by (elim conjE) assumption
  with h2 have c3: "map SummaryItem.number (aggregate Jodi [?a, ?b]) = generateAllNumbers Jodi"
    by (rule rev_mp)
  show ?thesis
    by (intro conjI h1 h3 h2 c1 c2 c3)
qed

section \<open>Promotion\<close>

lemma promoteBatch_None:
  "promoteBatch None ids clock i batch docs =
     docs @ map (\<lambda>(j, doc). doc\<lparr>docId := ids j, pending := Some False, processedAt := Some (clock j)\<rparr>)
              (enumerate i batch)"
  by (induction batch arbitrary: i docs) (simp_all add: addDoc_def)

lemma promoteBatch_prefix:
  "take (length docs) (promoteBatch fault ids clock i batch docs) = docs"
proof (induction batch arbitrary: i docs)
  case Nil
  then show ?case by simp
next
  case (Cons doc batch)
  let ?docs' = "addDoc (ids i) (doc\<lparr>pending := Some False, processedAt := Some (clock i)\<rparr>) docs"
  have "take (length docs) (promoteBatch fault ids clock (Suc i) batch ?docs')
      = take (length docs) (take (length ?docs') (promoteBatch fault ids clock (Suc i) batch ?docs'))"
    by (simp add: addDoc_def min_def)
  also have "\<dots> = take (length docs) ?docs'"
    unfolding Cons.IH ..
  also have "\<dots> = docs" by (simp add: addDoc_def)
  finally show ?case by simp
qed

lemma previousSlotStart_eq:
  "setMinutes tz (getMinutes tz t - 15) t = t - 900000"
  by (simp add: setMinutes_eq)

text \<open>
  Claim C5. With a current slot and no failure of the store, promotion appends to the
  collection one new document for each document that is pending, filed under the selected
  date and variant, and created in \<open>[start - 15 min, start)\<close> of the current slot, and for
  no other; the new document has the fields of the original, except that \<open>pending\<close> is
  false and \<open>processedAt\<close> holds the time of promotion, and it has an identifier of its
  own. Whatever the store does, the documents that were in the collection are still
  there, unchanged in every field; without a current slot nothing is written.
\<close>

theorem processPendingEntries_copies:
  "processPendingEntries tz None ids clock (Some slot) date' type' docs =
     docs @ map (\<lambda>(i, doc). doc\<lparr>docId := ids i, pending := Some False, processedAt := Some (clock i)\<rparr>)
              (enumerate 0
                 (filter (\<lambda>d. date d = date' \<and> type d = type' \<and>
                               createdAt d \<ge> startTime slot - 900000 \<and> createdAt d < startTime slot \<and>
                               pending d = Some True) docs)) \<and>
   take (length docs) (processPendingEntries tz fault ids clock currentTimeSlot date' type' docs) = docs \<and>
   processPendingEntries tz fault ids clock None date' type' docs = docs"
proof -
  have c1: "processPendingEntries tz None ids clock (Some slot) date' type' docs =
     docs @ map (\<lambda>(i, doc). doc\<lparr>docId := ids i, pending := Some False, processedAt := Some (clock i)\<rparr>)
              (enumerate 0
                 (filter (\<lambda>d. date d = date' \<and> type d = type' \<and>
                               createdAt d \<ge> startTime slot - 900000 \<and> createdAt d < startTime slot \<and>
                               pending d = Some True) docs))"
    by (simp add: processPendingEntries_def Let_def previousSlotStart_eq promoteBatch_None)
  have c2: "take (length docs) (processPendingEntries tz fault ids clock currentTimeSlot date' type' docs) = docs"
    by (cases currentTimeSlot) (simp_all add: processPendingEntries_def Let_def promoteBatch_prefix)
  have c3: "processPendingEntries tz fault ids clock None date' type' docs = docs"
    by (simp add: processPendingEntries_def)
  show ?thesis by (intro conjI c1 c2 c3)
qed

lemma promotion_twice_eq:
  "processPendingEntries tz None ids' clock' (Some slot) date' type'
     (processPendingEntries tz None ids clock (Some slot) date' type' docs) =
   docs @
   map (\<lambda>(i, doc). doc\<lparr>docId := ids i, pending := Some False, processedAt := Some (clock i)\<rparr>)
     (enumerate 0
        (filter (\<lambda>d. date d = date' \<and> type d = type' \<and>
                      createdAt d \<ge> startTime slot - 900000 \<and> createdAt d < startTime slot \<and>
                      pending d = Some True) docs)) @
   map (\<lambda>(i, doc). doc\<lparr>docId := ids' i, pending := Some False, processedAt := Some (clock' i)\<rparr>)
     (enumerate 0
        (filter (\<lambda>d. date d = date' \<and> type d = type' \<and>
                      createdAt d \<ge> startTime slot - 900000 \<and> createdAt d < startTime slot \<and>
                      pending d = Some True) docs))"
proof -
  let ?sel = "\<lambda>d. date d = date' \<and> type d = type' \<and>
                      createdAt d \<ge> startTime slot - 900000 \<and> createdAt d < startTime slot \<and>
                      pending d = Some True"
  let ?copies = "map (\<lambda>(i, doc). doc\<lparr>docId := ids i, pending := Some False, processedAt := Some (clock i)\<rparr>)
     (enumerate 0 (filter ?sel docs))"
  have run: "processPendingEntries tz None ids clock (Some slot) date' type' docs
      = docs @ map (\<lambda>(i, doc). doc\<lparr>docId := ids i, pending := Some False, processedAt := Some (clock i)\<rparr>)
          (enumerate 0 (filter ?sel docs))" for ids clock docs
    by (simp add: processPendingEntries_def Let_def previousSlotStart_eq promoteBatch_None)
  have "filter ?sel ?copies = []"
    by (auto simp: filter_empty_conv)
  then have "filter ?sel (docs @ ?copies) = filter ?sel docs"
    by simp
  then show ?thesis
    unfolding run by simp
qed

lemma length_settled_copies:
  "length (filter (\<lambda>d. pending d = Some False)
     (map (\<lambda>(i, doc). doc\<lparr>docId := ids i, pending := Some False, processedAt := Some (clock i)\<rparr>) xs))
   = length xs"
  by (induction xs) auto

text \<open>
  Claim C1 does not hold: two runs of the effect in the same minute, at 12:15:30 and
  12:15:50, for the same slot, date and variant, leave two settled copies of the one
  pending entry, made at 12:07.
\<close>

theorem processPendingEntries_twice_counterexample:
  "promotionEffect 330 None (\<lambda>i. ''c2'') (\<lambda>i. 1705301150000)
       (Some (getCurrentTimeSlot 330 1705301150000)) 1705301150000 ''2024-01-15'' Jodi
     (promotionEffect 330 None (\<lambda>i. ''c1'') (\<lambda>i. 1705301130000)
        (Some (getCurrentTimeSlot 330 1705301130000)) 1705301130000 ''2024-01-15'' Jodi
        [sampleBet ''d1'' ''07'' 5 1705300620000 True])
   = [sampleBet ''d1'' ''07'' 5 1705300620000 True,
      (sampleBet ''c1'' ''07'' 5 1705300620000 False)\<lparr>processedAt := Some 1705301130000\<rparr>,
      (sampleBet ''c2'' ''07'' 5 1705300620000 False)\<lparr>processedAt := Some 1705301150000\<rparr>]"
proof -
  have slot1: "getCurrentTimeSlot 330 1705301130000
      = \<lparr>startTime = 1705301100000, endTime = 1705302000000, entries = []\<rparr>"
    by (simp add: getCurrentTimeSlot_def getMinutes_def MinFromTime_def LocalTime_def
        setMinutes3_eq MakeTime_def)
  have slot2: "getCurrentTimeSlot 330 1705301150000
      = \<lparr>startTime = 1705301100000, endTime = 1705302000000, entries = []\<rparr>"
    by (simp add: getCurrentTimeSlot_def getMinutes_def MinFromTime_def LocalTime_def
        setMinutes3_eq MakeTime_def)
  have run: "promotionEffect 330 fault ids clock (Some slot) now date' type' docs
      = processPendingEntries 330 fault ids clock (Some slot) date' type' docs"
    if "now = 1705301130000 \<or> now = 1705301150000" for fault ids clock slot now date' type' docs
    using that
    by (auto simp: promotionEffect_def Let_def getMinutes_def getSeconds_def MinFromTime_def
        SecFromTime_def LocalTime_def)
  show ?thesis
    unfolding slot1 slot2 by (simp add: run promotion_twice_eq sampleBet_def enumerate_eq_zip)
qed

text \<open>
  Claim C1, amended. Each run appends one settled copy for every pending entry of the
  elapsed slot and leaves the pending entries pending; nothing records that an entry has
  been promoted. A second run for the same slot, date and variant selects the same
  entries again, so that after two runs every originally pending entry of the slot has
  two settled copies.
\<close>

theorem processPendingEntries_twice:
  "processPendingEntries tz None ids' clock' (Some slot) date' type'
     (processPendingEntries tz None ids clock (Some slot) date' type' docs) =
   docs @
   map (\<lambda>(i, doc). doc\<lparr>docId := ids i, pending := Some False, processedAt := Some (clock i)\<rparr>)
     (enumerate 0
        (filter (\<lambda>d. date d = date' \<and> type d = type' \<and>
                      createdAt d \<ge> startTime slot - 900000 \<and> createdAt d < startTime slot \<and>
                      pending d = Some True) docs)) @
   map (\<lambda>(i, doc). doc\<lparr>docId := ids' i, pending := Some False, processedAt := Some (clock' i)\<rparr>)
     (enumerate 0
        (filter (\<lambda>d. date d = date' \<and> type d = type' \<and>
                      createdAt d \<ge> startTime slot - 900000 \<and> createdAt d < startTime slot \<and>
                      pending d = Some True) docs)) \<and>
   length (filter (\<lambda>d. pending d = Some False)
     (processPendingEntries tz None ids' clock' (Some slot) date' type'
        (processPendingEntries tz None ids clock (Some slot) date' type' docs)))
   = length (filter (\<lambda>d. pending d = Some False) docs) +
     2 * length (filter (\<lambda>d. date d = date' \<and> type d = type' \<and>
                      createdAt d \<ge> startTime slot - 900000 \<and> createdAt d < startTime slot \<and>
                      pending d = Some True) docs) \<and>
   filter (\<lambda>d. pending d = Some True)
     (processPendingEntries tz None ids' clock' (Some slot) date' type'
        (processPendingEntries tz None ids clock (Some slot) date' type' docs))
   = filter (\<lambda>d. pending d = Some True) docs"
proof -
  have settled: "filter (\<lambda>d. pending d = Some False)
     (map (\<lambda>(i, doc). doc\<lparr>docId := ids i, pending := Some False, processedAt := Some (clock i)\<rparr>) xs)
     = map (\<lambda>(i, doc). doc\<lparr>docId := ids i, pending := Some False, processedAt := Some (clock i)\<rparr>) xs"
    for ids clock and xs :: "(nat \<times> EntryData) list"
    by (induction xs) auto
  have pend: "filter (\<lambda>d. pending d = Some True)
     (map (\<lambda>(i, doc). doc\<lparr>docId := ids i, pending := Some False, processedAt := Some (clock i)\<rparr>) xs) = []"
    for ids clock and xs :: "(nat \<times> EntryData) list"
    by (auto simp: filter_empty_conv)
  show ?thesis
    unfolding promotion_twice_eq filter_append settled pend
    by (simp only: length_append length_map length_enumerate append_Nil2 mult_2 add.assoc simp_thms)
qed

section \<open>The results viewer\<close>










section \<open>The row of a slot\<close>

lemma addSlotEntry_fresh:
  assumes "EntryData.number e \<notin> fst ` set am" and "EntryData.number e \<notin> fst ` set um"
  shows "addSlotEntry made (am, um) (i, e) =
     (am @ [(EntryData.number e, plusNumber 0 (EntryData.amount e))],
      um @ [(EntryData.number e, [orElse (userId e) (made i)])])"
proof -
  have 1: "mapHas (EntryData.number e) am = False"
    using assms(1) by (simp add: mapHas_iff)
  have fresh: "mapSet (EntryData.number e) v m = m @ [(EntryData.number e, v)]"
    if "EntryData.number e \<notin> fst ` set m" for m :: "(string \<times> 'v) list" and v
    using that by (intro mapSet_fresh) simp
  have found: "map_of (m @ [(EntryData.number e, v)]) (EntryData.number e) = Some v"
    if "EntryData.number e \<notin> fst ` set m" for m :: "(string \<times> 'v) list" and v
    using that by (induction m) auto
  have again: "mapSet (EntryData.number e) w (m @ [(EntryData.number e, v)]) = m @ [(EntryData.number e, w)]"
    if "EntryData.number e \<notin> fst ` set m" for m :: "(string \<times> 'v) list" and v w
    using that by (induction m) auto
  have add: "setAdd [] u = [u]" for u :: string
    by (simp add: setAdd_def)
  show ?thesis
    unfolding addSlotEntry_def Let_def prod.case
    by (simp only: 1 not_False_eq_True if_True fresh [OF assms(1)] fresh [OF assms(2)]
        found [OF assms(1)] found [OF assms(2)] again [OF assms(1)] again [OF assms(2)]
        option.case add)
qed

lemma foldl_addSlotEntry:
  assumes "distinct (map fst am @ map EntryData.number es)"
    and "distinct (map fst um @ map EntryData.number es)"
  shows "foldl (addSlotEntry made) (am, um) (enumerate i es) =
     (am @ map (\<lambda>e. (EntryData.number e, plusNumber 0 (EntryData.amount e))) es,
      um @ map (\<lambda>p. (EntryData.number (snd p), [orElse (userId (snd p)) (made (fst p))])) (enumerate i es))"
  using assms
proof (induction es arbitrary: am um i)
  case Nil
  then show ?case by simp
next
  case (Cons e es)
  from Cons.prems have f: "EntryData.number e \<notin> fst ` set am" "EntryData.number e \<notin> fst ` set um"
    by auto
  let ?am = "am @ [(EntryData.number e, plusNumber 0 (EntryData.amount e))]"
  let ?um = "um @ [(EntryData.number e, [orElse (userId e) (made i)])]"
  from Cons.prems have d: "distinct (map fst ?am @ map EntryData.number es)"
    "distinct (map fst ?um @ map EntryData.number es)"
    by auto
  show ?case
    by (simp add: addSlotEntry_fresh [OF f] Cons.IH [OF d])
qed

lemma aggregateSlot_distinct:
  assumes "distinct (map EntryData.number es)"
  shows "aggregateSlot made es =
     map (\<lambda>e. \<lparr>AggregatedBet.number = EntryData.number e,
                amount = plusNumber 0 (EntryData.amount e), userCount = 1\<rparr>) es"
proof -
  let ?um = "map (\<lambda>p. (EntryData.number (snd p), [orElse (userId (snd p)) (made (fst p))])) (enumerate 0 es)"
  have fold: "foldl (addSlotEntry made) ([], []) (enumerate 0 es) =
     (map (\<lambda>e. (EntryData.number e, plusNumber 0 (EntryData.amount e))) es, ?um)"
    using foldl_addSlotEntry [of "[]" es "[]" made 0] assms by simp
  have keys: "map fst ?um = map EntryData.number es"
  proof -
    have "map fst ?um = map (\<lambda>p. EntryData.number (snd p)) (enumerate 0 es)"
      by (simp add: o_def)
    also have "\<dots> = map EntryData.number (map snd (enumerate 0 es))"
      by (simp only: map_map o_def)
    also have "\<dots> = map EntryData.number es"
      by (simp only: map_snd_enumerate)
    finally show ?thesis .
  qed
  have one: "(case map_of ?um (EntryData.number e) of None \<Rightarrow> 0 | Some s \<Rightarrow> length s) = 1"
    if "e \<in> set es" for e
  proof -
    from that have "EntryData.number e \<in> set (map fst ?um)" unfolding keys by simp
    then have "EntryData.number e \<in> fst ` set ?um" by (simp only: set_map)
    then have "map_of ?um (EntryData.number e) \<noteq> None"
      by (simp only: map_of_eq_None_iff not_not)
    then obtain s where s: "map_of ?um (EntryData.number e) = Some s"
      by (rule not_None_eq [THEN iffD1, THEN exE])
    then have "(EntryData.number e, s) \<in> set ?um" by (rule map_of_SomeD)
    then have "length s = 1" by auto
    with s show ?thesis by simp
  qed
  show ?thesis
    unfolding aggregateSlot_def fold by (simp add: one)
qed

lemma distinct_foldl_setAdd: "distinct acc \<Longrightarrow> distinct (foldl setAdd acc xs)"
  by (induction xs arbitrary: acc) (simp_all add: setAdd_def)

lemma distinct_ownKeys: "distinct ks \<Longrightarrow> distinct (ownKeys ks)"
  by (auto simp: ownKeys_def)

lemma mset_insertBy: "mset (insertBy cmp x ys) = add_mset x (mset ys)"
  by (induction ys) simp_all

lemma mset_jsSort: "mset (jsSort cmp xs) = mset xs"
  by (induction xs) (simp_all add: jsSort_def mset_insertBy)

lemma set_jsSort: "set (jsSort cmp xs) = set xs"
  using mset_jsSort [of cmp xs] by (rule mset_eq_setD)

lemma objectEntries_keys:
  "map fst (objectEntries keys obj) = filter (\<lambda>k. obj k \<noteq> None) keys"
  by (induction keys) (auto simp: objectEntries_def split: option.splits)

lemma timeSlotsArray_distinct:
  assumes "slot \<in> set (timeSlotsArray tz now viewType dateStr rawData groupedSlots)"
  shows "distinct (map EntryData.number (entries slot))"
  using assms unfolding timeSlotsArray_def Let_def set_jsSort set_map
  by (rule imageE)
    (simp add: case_prod_unfold o_def objectEntries_keys distinct_ownKeys distinct_foldl_setAdd)

lemma fetchTimeSlots_distinct:
  assumes "fetchTimeSlots tz anon isLoading clockNow customTime viewType dateStr docs = Some slots"
    and "slot \<in> set slots"
  shows "distinct (map EntryData.number (entries slot))"
  using assms
  by (auto simp: fetchTimeSlots_def Let_def timeSlotsArray_distinct split: fetchOutcome.splits)

lemma finiteItems_subset:
  "set (finiteItems (map (foundOrSentinel aggregatedBets) nums)) \<subseteq> set aggregatedBets"
proof (induction nums)
  case Nil
  then show ?case by simp
next
  case (Cons num nums)
  show ?case
  proof (cases "find (\<lambda>bet. AggregatedBet.number bet = num) aggregatedBets")
    case None
    with Cons show ?thesis by (simp add: foundOrSentinel_def)
  next
    case (Some b)
    then have "b \<in> set aggregatedBets" by (auto simp: find_Some_iff)
    with Some Cons show ?thesis by (simp add: foundOrSentinel_def)
  qed
qed

lemma rankedBets_subset: "set (rankedBets viewType aggregatedBets) \<subseteq> set aggregatedBets"
proof -
  have "set (rankedBets viewType aggregatedBets) = set (finiteItems (allNumbersWithBets viewType aggregatedBets))"
    unfolding rankedBets_sort_key by simp
  also have "\<dots> \<subseteq> set aggregatedBets"
    by (subst allNumbersWithBets_map) (rule finiteItems_subset)
  finally show ?thesis .
qed

lemma rankedBets_one_user:
  assumes "\<forall>bet \<in> set aggregatedBets. AggregatedBet.userCount bet = 1"
  shows "sorted_wrt (\<lambda>a b.
       AggregatedBet.amount a < AggregatedBet.amount b \<or>
       AggregatedBet.amount a = AggregatedBet.amount b \<and>
         decimalValue (AggregatedBet.number a) < decimalValue (AggregatedBet.number b))
     (rankedBets viewType aggregatedBets)"
proof -
  from rankedBets_order [of viewType aggregatedBets]
  have "sorted_wrt (\<lambda>a b.
       AggregatedBet.amount a < AggregatedBet.amount b \<or>
       AggregatedBet.amount a = AggregatedBet.amount b \<and>
         (AggregatedBet.userCount a < AggregatedBet.userCount b \<or>
          AggregatedBet.userCount a = AggregatedBet.userCount b \<and>
            decimalValue (AggregatedBet.number a) < decimalValue (AggregatedBet.number b)))
     (rankedBets viewType aggregatedBets)"
    by (elim conjE) assumption
  then show ?thesis
  proof (rule sorted_wrt_mono_rel [rotated])
    fix a b
    assume "a \<in> set (rankedBets viewType aggregatedBets)" "b \<in> set (rankedBets viewType aggregatedBets)"
    with rankedBets_subset [of viewType aggregatedBets] assms
    have "AggregatedBet.userCount a = 1" "AggregatedBet.userCount b = 1" by auto
    moreover assume "AggregatedBet.amount a < AggregatedBet.amount b \<or>
       AggregatedBet.amount a = AggregatedBet.amount b \<and>
         (AggregatedBet.userCount a < AggregatedBet.userCount b \<or>
          AggregatedBet.userCount a = AggregatedBet.userCount b \<and>
            decimalValue (AggregatedBet.number a) < decimalValue (AggregatedBet.number b))"
    ultimately show "AggregatedBet.amount a < AggregatedBet.amount b \<or>
       AggregatedBet.amount a = AggregatedBet.amount b \<and>
         decimalValue (AggregatedBet.number a) < decimalValue (AggregatedBet.number b)"
      by simp
  qed
qed

lemma row_example:
  "leastBetNumbers Jodi
     [\<lparr>AggregatedBet.number = ''05'', amount = 100, userCount = 1\<rparr>,
      \<lparr>AggregatedBet.number = ''07'', amount = 100, userCount = 1\<rparr>,
      \<lparr>AggregatedBet.number = ''09'', amount = 50, userCount = 1\<rparr>] = [''09'', ''05'', ''07'']"
  unfolding leastBetNumbers_def rankedBets_def allNumbersWithBets_map [of Jodi "_ # _"] rank_domain_Jodi
  by code_simp

text \<open>
  Claim C4 fails on the program. The display does not rank the bets of a slot with the
  user counts of the slot summary. It aggregates the entries of the slot anew and counts
  the users of a number from the \<open>userId\<close> of its entries; the entries that
  \<open>fetchData\<close> builds carry a \<open>userCount\<close> and no \<open>userId\<close>, and there is one entry
  for each number. So every bet that is ranked has the user count 1, the comparison of
  user counts never decides, and the ranked bets are in ascending order of amount, then
  numeric value of the number. For six bets in one slot, two on \<open>05\<close> (50 and 50), one on
  \<open>07\<close> (100) and three on \<open>09\<close> (20, 20 and 10), no bet naming a user, the slot
  summary is \<open>05\<close> with amount 100 and 2 users, \<open>07\<close> with 100 and 1 user, \<open>09\<close> with
  50 and 3 users, and the row displayed is \<open>09, 05, 07\<close>, not \<open>09, 07, 05\<close>.
\<close>

theorem slotRow_user_count:
  "(distinct (map EntryData.number slotEntries) \<longrightarrow>
      aggregateSlot made slotEntries
        = map (\<lambda>e. \<lparr>AggregatedBet.number = EntryData.number e,
                     amount = plusNumber 0 (EntryData.amount e), userCount = 1\<rparr>) slotEntries \<and>
      sorted_wrt (\<lambda>a b.
          AggregatedBet.amount a < AggregatedBet.amount b \<or>
          AggregatedBet.amount a = AggregatedBet.amount b \<and>
            decimalValue (AggregatedBet.number a) < decimalValue (AggregatedBet.number b))
        (rankedBets viewType (aggregateSlot made slotEntries))) \<and>
   (fetchTimeSlots tz anon isLoading clockNow customTime viewType dateStr docs = Some slots \<and>
    slot \<in> set slots \<longrightarrow>
      distinct (map EntryData.number (entries slot)) \<and>
      (\<forall>bet \<in> set (aggregateSlot made (entries slot)). AggregatedBet.userCount bet = 1)) \<and>
   fetchTimeSlots 330 (\<lambda>i. ''anonymous-'' @ toString i) False 1705301130000 None Jodi ''2024-01-15''
     [sampleBet ''d1'' ''09'' 20 1705300620000 True,
      sampleBet ''d2'' ''09'' 20 1705300630000 True,
      sampleBet ''d3'' ''09'' 10 1705300640000 True,
      sampleBet ''d4'' ''07'' 100 1705300650000 True,
      sampleBet ''d5'' ''05'' 50 1705300660000 True,
      sampleBet ''d6'' ''05'' 50 1705300670000 True]
   = Some [\<lparr>timeKey = 1705301100000,
       entries =
         [\<lparr>docId = [], EntryData.number = ''05'', EntryData.amount = 100, userId = None,
           createdAt = 1705301100000, date = ''2024-01-15'', type = Jodi, pending = None,
           processedAt = None, SlotEntry.userCount = 2\<rparr>,
          \<lparr>docId = [], EntryData.number = ''07'', EntryData.amount = 100, userId = None,
           createdAt = 1705301100000, date = ''2024-01-15'', type = Jodi, pending = None,
           processedAt = None, SlotEntry.userCount = 1\<rparr>,
          \<lparr>docId = [], EntryData.number = ''09'', EntryData.amount = 50, userId = None,
           createdAt = 1705301100000, date = ''2024-01-15'', type = Jodi, pending = None,
           processedAt = None, SlotEntry.userCount = 3\<rparr>]\<rparr>] \<and>
   slotRow made Jodi
     \<lparr>timeKey = 1705301100000,
       entries =
         [\<lparr>docId = [], EntryData.number = ''05'', EntryData.amount = 100, userId = None,
           createdAt = 1705301100000, date = ''2024-01-15'', type = Jodi, pending = None,
           processedAt = None, SlotEntry.userCount = 2\<rparr>,
          \<lparr>docId = [], EntryData.number = ''07'', EntryData.amount = 100, userId = None,
           createdAt = 1705301100000, date = ''2024-01-15'', type = Jodi, pending = None,
           processedAt = None, SlotEntry.userCount = 1\<rparr>,
          \<lparr>docId = [], EntryData.number = ''09'', EntryData.amount = 50, userId = None,
           createdAt = 1705301100000, date = ''2024-01-15'', type = Jodi, pending = None,
           processedAt = None, SlotEntry.userCount = 3\<rparr>]\<rparr>
     = [''09'', ''05'', ''07'']"
proof -
  let ?slot = "\<lparr>timeKey = 1705301100000,
       entries =
         [\<lparr>docId = [], EntryData.number = ''05'', EntryData.amount = 100, userId = None,
           createdAt = 1705301100000, date = ''2024-01-15'', type = Jodi, pending = None,
           processedAt = None, SlotEntry.userCount = 2\<rparr>,
          \<lparr>docId = [], EntryData.number = ''07'', EntryData.amount = 100, userId = None,
           createdAt = 1705301100000, date = ''2024-01-15'', type = Jodi, pending = None,
           processedAt = None, SlotEntry.userCount = 1\<rparr>,
          \<lparr>docId = [], EntryData.number = ''09'', EntryData.amount = 50, userId = None,
           createdAt = 1705301100000, date = ''2024-01-15'', type = Jodi, pending = None,
           processedAt = None, SlotEntry.userCount = 3\<rparr>]\<rparr>"
  have one: "\<forall>bet \<in> set (aggregateSlot made es). AggregatedBet.userCount bet = 1"
    if "distinct (map EntryData.number es)" for es
    unfolding aggregateSlot_distinct [OF that] by simp
  have c1: "aggregateSlot made slotEntries
        = map (\<lambda>e. \<lparr>AggregatedBet.number = EntryData.number e,
                     amount = plusNumber 0 (EntryData.amount e), userCount = 1\<rparr>) slotEntries \<and>
      sorted_wrt (\<lambda>a b.
          AggregatedBet.amount a < AggregatedBet.amount b \<or>
          AggregatedBet.amount a = AggregatedBet.amount b \<and>
            decimalValue (AggregatedBet.number a) < decimalValue (AggregatedBet.number b))
        (rankedBets viewType (aggregateSlot made slotEntries))"
    if d: "distinct (map EntryData.number slotEntries)"
    using aggregateSlot_distinct [OF d] rankedBets_one_user [OF one [OF d]] by (rule conjI)
  have c2: "distinct (map EntryData.number (entries slot)) \<and>
      (\<forall>bet \<in> set (aggregateSlot made (entries slot)). AggregatedBet.userCount bet = 1)"
    if "fetchTimeSlots tz anon isLoading clockNow customTime viewType dateStr docs = Some slots"
      and "slot \<in> set slots"
    using fetchTimeSlots_distinct [OF that] one by blast
  have c3: "fetchTimeSlots 330 (\<lambda>i. ''anonymous-'' @ toString i) False 1705301130000 None Jodi ''2024-01-15''
     [sampleBet ''d1'' ''09'' 20 1705300620000 True,
      sampleBet ''d2'' ''09'' 20 1705300630000 True,
      sampleBet ''d3'' ''09'' 10 1705300640000 True,
      sampleBet ''d4'' ''07'' 100 1705300650000 True,
      sampleBet ''d5'' ''05'' 50 1705300660000 True,
      sampleBet ''d6'' ''05'' 50 1705300670000 True]
   = Some [?slot]"
    by code_simp
  have whole: "plusNumber 0 100 = 100" "plusNumber 0 50 = 50"
    by (simp_all add: plusNumber_whole)
  have "distinct (map EntryData.number (entries ?slot))" by simp
  then have "aggregateSlot made (entries ?slot)
      = [\<lparr>AggregatedBet.number = ''05'', amount = 100, userCount = 1\<rparr>,
         \<lparr>AggregatedBet.number = ''07'', amount = 100, userCount = 1\<rparr>,
         \<lparr>AggregatedBet.number = ''09'', amount = 50, userCount = 1\<rparr>]"
    by (simp add: aggregateSlot_distinct whole)
  then have c4: "slotRow made Jodi ?slot = [''09'', ''05'', ''07'']"
    unfolding slotRow_def by (simp only: row_example)
  show ?thesis
    using c1 c2 by (intro conjI impI c3 c4) (elim conjE | assumption | blast)+
qed

theorem slotRow_user_count_witness:
  "distinct (map EntryData.number
     [\<lparr>docId = [], EntryData.number = ''05'', EntryData.amount = 100, userId = None,
       createdAt = 1705301100000, date = ''2024-01-15'', type = Jodi, pending = None,
       processedAt = None, SlotEntry.userCount = 2\<rparr>,
      \<lparr>docId = [], EntryData.number = ''07'', EntryData.amount = 100, userId = None,
       createdAt = 1705301100000, date = ''2024-01-15'', type = Jodi, pending = None,
       processedAt = None, SlotEntry.userCount = 1\<rparr>]) \<and>
   aggregateSlot (\<lambda>i. ''entry-'' @ toString i)
     [\<lparr>docId = [], EntryData.number = ''05'', EntryData.amount = 100, userId = None,
       createdAt = 1705301100000, date = ''2024-01-15'', type = Jodi, pending = None,
       processedAt = None, SlotEntry.userCount = 2\<rparr>,
      \<lparr>docId = [], EntryData.number = ''07'', EntryData.amount = 100, userId = None,
       createdAt = 1705301100000, date = ''2024-01-15'', type = Jodi, pending = None,
       processedAt = None, SlotEntry.userCount = 1\<rparr>]
     = [\<lparr>AggregatedBet.number = ''05'', amount = 100, userCount = 1\<rparr>,
        \<lparr>AggregatedBet.number = ''07'', amount = 100, userCount = 1\<rparr>] \<and>
   fetchTimeSlots 330 (\<lambda>i. ''anonymous-'' @ toString i) False 1705301130000 None Jodi ''2024-01-15''
     [sampleBet ''d4'' ''07'' 100 1705300650000 True]
   = Some [\<lparr>timeKey = 1705301100000,
       entries =
         [\<lparr>docId = [], EntryData.number = ''07'', EntryData.amount = 100, userId = None,
           createdAt = 1705301100000, date = ''2024-01-15'', type = Jodi, pending = None,
           processedAt = None, SlotEntry.userCount = 1\<rparr>]\<rparr>] \<and>
   list_all (\<lambda>bet. AggregatedBet.userCount bet = 1)
     (aggregateSlot (\<lambda>i. ''entry-'' @ toString i)
        [\<lparr>docId = [], EntryData.number = ''07'', EntryData.amount = 100, userId = None,
          createdAt = 1705301100000, date = ''2024-01-15'', type = Jodi, pending = None,
          processedAt = None, SlotEntry.userCount = 1\<rparr>])"
proof -
  let ?e5 = "\<lparr>docId = [], EntryData.number = ''05'', EntryData.amount = 100, userId = None,
       createdAt = 1705301100000, date = ''2024-01-15'', type = Jodi, pending = None,
       processedAt = None, SlotEntry.userCount = 2\<rparr>"
  let ?e7 = "\<lparr>docId = [], EntryData.number = ''07'', EntryData.amount = 100, userId = None,
       createdAt = 1705301100000, date = ''2024-01-15'', type = Jodi, pending = None,
       processedAt = None, SlotEntry.userCount = 1\<rparr>"
  let ?made = "\<lambda>i. ''entry-'' @ toString i"
  let ?docs = "[sampleBet ''d4'' ''07'' 100 1705300650000 True]"
  let ?slot = "\<lparr>timeKey = 1705301100000, entries = [?e7]\<rparr>"
  note th = slotRow_user_count [where slotEntries = "[?e5, ?e7]" and made = ?made and viewType = Jodi
      and tz = 330 and anon = "\<lambda>i. ''anonymous-'' @ toString i" and isLoading = False
      and clockNow = 1705301130000 and customTime = None and dateStr = "''2024-01-15''"
      and docs = ?docs and slots = "[?slot]" and slot = ?slot]
  have h1: "distinct (map EntryData.number [?e5, ?e7])" by simp
  have whole: "plusNumber 0 100 = 100"
    by (simp add: plusNumber_whole)
  from th have "distinct (map EntryData.number [?e5, ?e7]) \<longrightarrow>
      aggregateSlot ?made [?e5, ?e7]
        = map (\<lambda>e. \<lparr>AggregatedBet.number = EntryData.number e,
                     amount = plusNumber 0 (EntryData.amount e), userCount = 1\<rparr>) [?e5, ?e7] \<and>
      sorted_wrt (\<lambda>a b.
          AggregatedBet.amount a < AggregatedBet.amount b \<or>
          AggregatedBet.amount a = AggregatedBet.amount b \<and>
            decimalValue (AggregatedBet.number a) < decimalValue (AggregatedBet.number b))
        (rankedBets Jodi (aggregateSlot ?made [?e5, ?e7]))"
    by (elim conjE) assumption
  with h1 have "aggregateSlot ?made [?e5, ?e7]
        = map (\<lambda>e. \<lparr>AggregatedBet.number = EntryData.number e,
                     amount = plusNumber 0 (EntryData.amount e), userCount = 1\<rparr>) [?e5, ?e7]"
    by (elim impE conjE) assumption
  then have c1: "aggregateSlot ?made [?e5, ?e7]
     = [\<lparr>AggregatedBet.number = ''05'', amount = 100, userCount = 1\<rparr>,
        \<lparr>AggregatedBet.number = ''07'', amount = 100, userCount = 1\<rparr>]"
    by (simp add: whole)
  have h2: "fetchTimeSlots 330 (\<lambda>i. ''anonymous-'' @ toString i) False 1705301130000 None Jodi ''2024-01-15'' ?docs
      = Some [?slot]"
    by code_simp
  have h3: "?slot \<in> set [?slot]" by simp
  from th have "fetchTimeSlots 330 (\<lambda>i. ''anonymous-'' @ toString i) False 1705301130000 None Jodi ''2024-01-15'' ?docs
      = Some [?slot] \<and> ?slot \<in> set [?slot] \<longrightarrow>
      distinct (map EntryData.number (entries ?slot)) \<and>
      (\<forall>bet \<in> set (aggregateSlot ?made (entries ?slot)). AggregatedBet.userCount bet = 1)"
    by (elim conjE) assumption
  with h2 h3 have "\<forall>bet \<in> set (aggregateSlot ?made (entries ?slot)). AggregatedBet.userCount bet = 1"
    by (elim impE conjE) (intro conjI, assumption+)
  then have c2: "list_all (\<lambda>bet. AggregatedBet.userCount bet = 1) (aggregateSlot ?made [?e7])"
    by (simp only: ViewerTimeSlot.simps list_all_iff)
  show ?thesis
    by (intro conjI h1 c1 h2 c2)
qed

section \<open>Validation of a submission\<close>

lemma single_format:
  "length num = 1 \<and> list_all (\<lambda>c. c \<in> set ''123456789'') num \<longleftrightarrow> num \<in> set (generateAllNumbers Single)"
proof
  assume "length num = 1 \<and> list_all (\<lambda>c. c \<in> set ''123456789'') num"
  then obtain c where "num = [c]" "c \<in> set ''123456789''"
    by (cases num) auto
  then show "num \<in> set (generateAllNumbers Single)"
    unfolding generateAllNumbers_Single by auto
next
  assume "num \<in> set (generateAllNumbers Single)"
  then show "length num = 1 \<and> list_all (\<lambda>c. c \<in> set ''123456789'') num"
    unfolding generateAllNumbers_Single by auto
qed

lemma jodi_format_legal:
  "list_all (\<lambda>s. length s = 2 \<and> list_all isDigit s \<and> 1 \<le> decimalValue s \<and> decimalValue s \<le> 99)
     (generateAllNumbers Jodi)"
  unfolding generateAllNumbers_Jodi by code_simp

lemma pair_in_product:
  "a \<in> set xs \<Longrightarrow> b \<in> set ys \<Longrightarrow> [a, b] \<in> set (concat (map (\<lambda>a. map (\<lambda>b. [a, b]) ys) xs))"
  by auto

lemma jodi_product:
  "concat (map (\<lambda>a. map (\<lambda>b. [a, b]) ''0123456789'') ''0123456789'') = ''00'' # generateAllNumbers Jodi"
  unfolding generateAllNumbers_Jodi by simp

lemma jodi_digits_legal:
  assumes "isDigit a" "isDigit b" "1 \<le> decimalValue [a, b]"
  shows "[a, b] \<in> set (generateAllNumbers Jodi)"
proof -
  have "[a, b] \<in> set (concat (map (\<lambda>a. map (\<lambda>b. [a, b]) ''0123456789'') ''0123456789''))"
    using assms(1,2) unfolding isDigit_def by (rule pair_in_product)
  then have "[a, b] \<in> set (''00'' # generateAllNumbers Jodi)"
    unfolding jodi_product .
  moreover have "[a, b] \<noteq> ''00''"
    using assms(3) by (auto simp: decimalValue_def digitValue_def)
  ultimately show ?thesis by auto
qed

lemma jodi_format:
  "length num = 2 \<and> list_all isDigit num \<and> \<not> decimalValue num < 1 \<and> \<not> decimalValue num > 99
     \<longleftrightarrow> num \<in> set (generateAllNumbers Jodi)"
proof
  assume a: "length num = 2 \<and> list_all isDigit num \<and> \<not> decimalValue num < 1 \<and> \<not> decimalValue num > 99"
  then obtain x y where num: "num = [x, y]"
    by (cases num; cases "tl num") auto
  with a show "num \<in> set (generateAllNumbers Jodi)"
    by (intro jodi_digits_legal [of x y, folded num]) auto
next
  assume "num \<in> set (generateAllNumbers Jodi)"
  then show "length num = 2 \<and> list_all isDigit num \<and> \<not> decimalValue num < 1 \<and> \<not> decimalValue num > 99"
    using jodi_format_legal unfolding list_all_iff by fastforce
qed

lemma number_format:
  "(type' = Single \<and> \<not> (length number' = 1 \<and> list_all (\<lambda>c. c \<in> set ''123456789'') number')) \<or>
   (type' = Jodi \<and> (\<not> (length number' = 2 \<and> list_all isDigit number') \<or>
                     decimalValue number' < 1 \<or> decimalValue number' > 99))
   \<longleftrightarrow> number' \<notin> set (generateAllNumbers type')"
proof (cases type')
  case Jodi
  then show ?thesis using jodi_format [of number'] by auto
next
  case Single
  then show ?thesis using single_format [of number'] by auto
qed

lemma handleSubmit_cases:
  "handleSubmit Number storeUp newId now type' date' number' amount' docs =
     (if number' \<notin> set (generateAllNumbers type')
      then ValidationFailed (if type' = Single
             then ''Enter a single number from 1 to 9 without leading zero''
             else ''Enter a jodi number from 01 to 99 with leading zero if < 10'')
      else if amount' = [] \<or> Number amount' = None \<or> (\<exists>a. Number amount' = Some a \<and> a \<le> 0)
      then ValidationFailed ''Enter a valid amount''
      else if storeUp
      then Saved (docs @ [\<lparr>docId = newId, EntryData.number = number',
              EntryData.amount = (case Number amount' of Some a \<Rightarrow> a | None \<Rightarrow> 0),
              userId = None, createdAt = now, date = date', type = type',
              pending = Some True, processedAt = None\<rparr>])
      else SaveError)"
proof (cases type')
  case Jodi
  then show ?thesis
    using number_format [of type' number']
    by (auto simp: handleSubmit_def addDoc_def split: option.splits)
next
  case Single
  then show ?thesis
    using number_format [of type' number']
    by (auto simp: handleSubmit_def addDoc_def split: option.splits)
qed

text \<open>
  Claim C6. \<open>handleSubmit\<close> ends with a validation alert exactly when the number is not a
  legal number of the variant, or the amount is empty, is not a number, or is a number
  that is not positive. A legal number of the single variant is one digit from 1 to 9; a
  legal number of the jodi variant is two digits with a value from 1 to 99, so that \<open>00\<close>
  is rejected. The alert comes before any use of the store: the outcome is the same
  whatever the collection holds and whether or not the store is reachable. In every other
  case the entry is added to the collection with \<open>pending\<close> set, or the failure of the
  store is reported when it does not accept the document.
\<close>

theorem handleSubmit_validation:
  "((\<exists>reason. handleSubmit Number storeUp newId now type' date' number' amount' docs = ValidationFailed reason)
      \<longleftrightarrow> number' \<notin> set (generateAllNumbers type') \<or> amount' = [] \<or> Number amount' = None \<or>
          (\<exists>a. Number amount' = Some a \<and> a \<le> 0)) \<and>
   (number' \<notin> set (generateAllNumbers type') \<or> amount' = [] \<or> Number amount' = None \<or>
    (\<exists>a. Number amount' = Some a \<and> a \<le> 0) \<longrightarrow>
      handleSubmit Number storeUp newId now type' date' number' amount' docs
        = handleSubmit Number storeUp' newId' now' type' date' number' amount' docs') \<and>
   (number' \<in> set (generateAllNumbers type') \<and> amount' \<noteq> [] \<and> Number amount' = Some a \<and> 0 < a \<longrightarrow>
      handleSubmit Number storeUp newId now type' date' number' amount' docs
        = (if storeUp
           then Saved (docs @ [\<lparr>docId = newId, EntryData.number = number', EntryData.amount = a,
                  userId = None, createdAt = now, date = date', type = type',
                  pending = Some True, processedAt = None\<rparr>])
           else SaveError)) \<and>
   (number' \<in> set (generateAllNumbers Single) \<longleftrightarrow>
      length number' = 1 \<and> list_all (\<lambda>c. c \<in> set ''123456789'') number') \<and>
   (number' \<in> set (generateAllNumbers Jodi) \<longleftrightarrow>
      length number' = 2 \<and> list_all isDigit number' \<and>
      1 \<le> decimalValue number' \<and> decimalValue number' \<le> 99) \<and>
   ''00'' \<notin> set (generateAllNumbers Jodi)"
proof -
  have c1: "(\<exists>reason. handleSubmit Number storeUp newId now type' date' number' amount' docs = ValidationFailed reason)
      \<longleftrightarrow> number' \<notin> set (generateAllNumbers type') \<or> amount' = [] \<or> Number amount' = None \<or>
          (\<exists>a. Number amount' = Some a \<and> a \<le> 0)"
    unfolding handleSubmit_cases by auto
  have c2: "number' \<notin> set (generateAllNumbers type') \<or> amount' = [] \<or> Number amount' = None \<or>
    (\<exists>a. Number amount' = Some a \<and> a \<le> 0) \<longrightarrow>
      handleSubmit Number storeUp newId now type' date' number' amount' docs
        = handleSubmit Number storeUp' newId' now' type' date' number' amount' docs'"
    unfolding handleSubmit_cases by auto
  have c3: "number' \<in> set (generateAllNumbers type') \<and> amount' \<noteq> [] \<and> Number amount' = Some a \<and> 0 < a \<longrightarrow>
      handleSubmit Number storeUp newId now type' date' number' amount' docs
        = (if storeUp
           then Saved (docs @ [\<lparr>docId = newId, EntryData.number = number', EntryData.amount = a,
                  userId = None, createdAt = now, date = date', type = type',
                  pending = Some True, processedAt = None\<rparr>])
           else SaveError)"
    unfolding handleSubmit_cases by auto
  have c4: "number' \<in> set (generateAllNumbers Single) \<longleftrightarrow>
      length number' = 1 \<and> list_all (\<lambda>c. c \<in> set ''123456789'') number'"
    using single_format [of number'] by blast
  have c5: "number' \<in> set (generateAllNumbers Jodi) \<longleftrightarrow>
      length number' = 2 \<and> list_all isDigit number' \<and>
      1 \<le> decimalValue number' \<and> decimalValue number' \<le> 99"
    using jodi_format [of number'] by auto
  have c6: "''00'' \<notin> set (generateAllNumbers Jodi)"
    unfolding generateAllNumbers_Jodi by simp
  show ?thesis
    by (intro conjI c1 c2 c3 c4 c5 c6)
qed

lemma sampleNumber_values:
  "sampleNumber ''5'' = Some 5" "sampleNumber ''-5'' = Some (- 5)" "sampleNumber ''0'' = Some 0"
  by (simp_all add: sampleNumber_def isDigit_def decimalValue_def digitValue_def)

theorem handleSubmit_validation_witness:
  "''00'' \<notin> set (generateAllNumbers Jodi) \<and>
   (\<exists>reason. handleSubmit sampleNumber True ''n1'' 1705300620000 Jodi ''2024-01-15'' ''00'' ''5'' []
      = ValidationFailed reason) \<and>
   (\<exists>a. sampleNumber ''-5'' = Some a \<and> a \<le> 0) \<and>
   (\<exists>reason. handleSubmit sampleNumber True ''n1'' 1705300620000 Single ''2024-01-15'' ''7'' ''-5'' []
      = ValidationFailed reason) \<and>
   (\<exists>a. sampleNumber ''0'' = Some a \<and> a \<le> 0) \<and>
   (\<exists>reason. handleSubmit sampleNumber True ''n1'' 1705300620000 Single ''2024-01-15'' ''7'' ''0'' []
      = ValidationFailed reason) \<and>
   handleSubmit sampleNumber True ''n1'' 1705300620000 Jodi ''2024-01-15'' ''00'' ''5'' []
     = handleSubmit sampleNumber False ''n2'' 0 Jodi ''2024-01-15'' ''00'' ''5''
         [sampleBet ''d1'' ''07'' 5 1705300620000 True] \<and>
   ''7'' \<in> set (generateAllNumbers Single) \<and> ''5'' \<noteq> [] \<and> sampleNumber ''5'' = Some 5 \<and> (0::rat) < 5 \<and>
   handleSubmit sampleNumber True ''n1'' 1705300620000 Single ''2024-01-15'' ''7'' ''5'' []
     = Saved [\<lparr>docId = ''n1'', EntryData.number = ''7'', EntryData.amount = 5,
               userId = None, createdAt = 1705300620000, date = ''2024-01-15'', type = Single,
               pending = Some True, processedAt = None\<rparr>]"
proof -
  have b1: "''00'' \<notin> set (generateAllNumbers Jodi)"
    unfolding generateAllNumbers_Jodi by simp
  have b2: "\<exists>a. sampleNumber ''-5'' = Some a \<and> a \<le> 0"
    by (simp add: sampleNumber_values)
  have b3: "\<exists>a. sampleNumber ''0'' = Some a \<and> a \<le> 0"
    by (simp add: sampleNumber_values)
  have g: "''7'' \<in> set (generateAllNumbers Single) \<and> ''5'' \<noteq> [] \<and> sampleNumber ''5'' = Some 5 \<and> (0::rat) < 5"
    unfolding generateAllNumbers_Single by (simp add: sampleNumber_values)
  note t1 = handleSubmit_validation [where Number = sampleNumber and storeUp = True and newId = "''n1''"
      and now = 1705300620000 and type' = Jodi and date' = "''2024-01-15''" and number' = "''00''"
      and amount' = "''5''" and docs = "[]" and storeUp' = False and newId' = "''n2''" and now' = 0
      and docs' = "[sampleBet ''d1'' ''07'' 5 1705300620000 True]" and a = 5]
  note t2 = handleSubmit_validation [where Number = sampleNumber and storeUp = True and newId = "''n1''"
      and now = 1705300620000 and type' = Single and date' = "''2024-01-15''" and number' = "''7''"
      and amount' = "''-5''" and docs = "[]" and storeUp' = False and newId' = "''n2''" and now' = 0
      and docs' = "[]" and a = 5]
  note t3 = handleSubmit_validation [where Number = sampleNumber and storeUp = True and newId = "''n1''"
      and now = 1705300620000 and type' = Single and date' = "''2024-01-15''" and number' = "''7''"
      and amount' = "''0''" and docs = "[]" and storeUp' = False and newId' = "''n2''" and now' = 0
      and docs' = "[]" and a = 5]
  note t4 = handleSubmit_validation [where Number = sampleNumber and storeUp = True and newId = "''n1''"
      and now = 1705300620000 and type' = Single and date' = "''2024-01-15''" and number' = "''7''"
      and amount' = "''5''" and docs = "[]" and storeUp' = False and newId' = "''n2''" and now' = 0
      and docs' = "[]" and a = 5]
  have c1: "\<exists>reason. handleSubmit sampleNumber True ''n1'' 1705300620000 Jodi ''2024-01-15'' ''00'' ''5'' []
      = ValidationFailed reason"
    using t1 [THEN conjunct1] b1 by blast
  have c2: "\<exists>reason. handleSubmit sampleNumber True ''n1'' 1705300620000 Single ''2024-01-15'' ''7'' ''-5'' []
      = ValidationFailed reason"
    using t2 [THEN conjunct1] b2 by blast
  have c3: "\<exists>reason. handleSubmit sampleNumber True ''n1'' 1705300620000 Single ''2024-01-15'' ''7'' ''0'' []
      = ValidationFailed reason"
    using t3 [THEN conjunct1] b3 by blast
  have c4: "handleSubmit sampleNumber True ''n1'' 1705300620000 Jodi ''2024-01-15'' ''00'' ''5'' []
     = handleSubmit sampleNumber False ''n2'' 0 Jodi ''2024-01-15'' ''00'' ''5''
         [sampleBet ''d1'' ''07'' 5 1705300620000 True]"
    using t1 [THEN conjunct2, THEN conjunct1] b1 by blast
  have c5: "handleSubmit sampleNumber True ''n1'' 1705300620000 Single ''2024-01-15'' ''7'' ''5'' []
     = Saved [\<lparr>docId = ''n1'', EntryData.number = ''7'', EntryData.amount = 5,
               userId = None, createdAt = 1705300620000, date = ''2024-01-15'', type = Single,
               pending = Some True, processedAt = None\<rparr>]"
    using t4 [THEN conjunct2, THEN conjunct2, THEN conjunct1, THEN mp, OF g] by simp
  show ?thesis
    using g by (intro conjI b1 b2 b3 c1 c2 c3 c4 c5) simp_all
qed

end
